theory Spec2Isabelle
  imports Complex_Main "HOL-Library.AList"
begin

section \<open>Python values shared by the embedded functions\<close>

text \<open>
  Python floats are modelled as \<^typ>\<open>real\<close> (no NaN and no infinity, and no rounding error
  except where a section introduces one),
  Python ints as \<^typ>\<open>int\<close>.  \<open>float(n)\<close> of an int is the embedding \<^term>\<open>real_of_int\<close>.
\<close>

definition py_int_of_float :: "real \<Rightarrow> int" where
  \<comment> \<open>\<open>int(x)\<close> on a float: truncation towards zero.\<close>
  "py_int_of_float x = (if 0 \<le> x then \<lfloor>x\<rfloor> else \<lceil>x\<rceil>)"

definition py_round :: "real \<Rightarrow> int" where
  \<comment> \<open>\<open>round(x)\<close> with one argument: nearest integer, ties to the even one.\<close>
  "py_round x =
     (let f = \<lfloor>x\<rfloor>; d = x - real_of_int f
      in if d < 1 / 2 then f
         else if 1 / 2 < d then f + 1
         else if even f then f else f + 1)"

section \<open>services/solvers/ortools\_solver.py: unit heuristics\<close>

definition tw_pair_to_seconds :: "int option \<Rightarrow> int option \<Rightarrow> int \<times> int" where
  \<comment> \<open>\<open>_tw_pair_to_seconds(a, b)\<close>\<close>
  "tw_pair_to_seconds a b =
     (let a' = real_of_int (case a of None \<Rightarrow> 0 | Some v \<Rightarrow> v);
          b' = real_of_int (case b of None \<Rightarrow> 0 | Some v \<Rightarrow> v);
          mx = max a' b'
      in if mx \<le> 48 then (py_int_of_float (a' * 3600), py_int_of_float (b' * 3600))
         else if mx \<le> 1440 then (py_int_of_float (a' * 60), py_int_of_float (b' * 60))
         else (py_int_of_float a', py_int_of_float b'))"

definition svc_to_seconds :: "int option \<Rightarrow> int" where
  \<comment> \<open>\<open>_svc_to_seconds(s)\<close>; \<open>s or 0\<close> maps both \<open>None\<close> and \<open>0\<close> to \<open>0\<close>.\<close>
  "svc_to_seconds s =
     (let s' = real_of_int (case s of None \<Rightarrow> 0 | Some v \<Rightarrow> (if v = 0 then 0 else v))
      in if s' \<le> 0 then 0
         else if s' \<le> 48 then py_int_of_float (s' * 3600)
         else if s' \<le> 1440 then py_int_of_float (s' * 60)
         else py_int_of_float s')"

lemma py_int_of_float_of_int [simp]: "py_int_of_float (real_of_int n) = n"
  by (simp add: py_int_of_float_def)

lemma py_int_of_float_of_int_times [simp]:
  "py_int_of_float (real_of_int n * numeral k) = n * numeral k"
proof -
  have "real_of_int n * numeral k = real_of_int (n * numeral k)" by simp
  then show ?thesis by (simp only: py_int_of_float_of_int)
qed

section \<open>Unit conversion of the metaheuristic engine\<close>

lemma py_round_examples:
  "py_round (5 / 2) = 2" "py_round (7 / 2) = 4" "py_round (13 / 5) = 3" "py_round (12 / 5) = 2"
  "py_round (- (5 / 2)) = - 2" "py_round (- (13 / 5)) = - 3" "py_round 300 = 300"
  by (simp_all add: py_round_def)

lemma py_int_of_float_examples:
  "py_int_of_float (13 / 5) = 2" "py_int_of_float (- (13 / 5)) = - 2"
  by (simp_all add: py_int_of_float_def)

lemma svc_to_seconds_not_positive: "s \<le> 0 \<Longrightarrow> svc_to_seconds (Some s) = 0"
  by (simp add: svc_to_seconds_def)



section \<open>core/cache.py: the TTL cache\<close>

text \<open>
  The store is a Python dict, which keeps insertion order: an association list with
  distinct keys, updated in place when the key is present and extended at the end
  otherwise (\<^const>\<open>AList.update\<close>).  A cached value is any Python object; \<open>None\<close> of Python is
  \<^term>\<open>None\<close> here and every other object \<open>v\<close> is \<^term>\<open>Some v\<close>.  \<open>time.time()\<close> is the
  argument \<open>now\<close> of each operation.
\<close>

record 'v ttl_cache =
  ttl :: int
  maxsize :: int
  store :: "(string \<times> (real \<times> 'v option)) list"

datatype cache_error = StopIteration

definition ttl_get :: "'v ttl_cache \<Rightarrow> string \<Rightarrow> real \<Rightarrow> 'v option \<times> 'v ttl_cache" where
  \<comment> \<open>\<open>TTLCache.get\<close>: the returned value and the cache after the call.  A stored record is a
      pair, which is never falsy, so \<open>not rec\<close> holds exactly when the key is absent.\<close>
  "ttl_get c key now =
     (case map_of (store c) key of
        None \<Rightarrow> (None, c)
      | Some (expiry, val) \<Rightarrow>
          if expiry < now then (None, c\<lparr>store := AList.delete key (store c)\<rparr>)
          else (val, c))"

definition ttl_set :: "'v ttl_cache \<Rightarrow> string \<Rightarrow> 'v option \<Rightarrow> real \<Rightarrow> cache_error + 'v ttl_cache" where
  \<comment> \<open>\<open>TTLCache.set\<close>; \<open>next(iter(...))\<close> of an empty dict raises \<open>StopIteration\<close>.\<close>
  "ttl_set c key val now =
     (if maxsize c \<le> int (length (store c)) then
        (case store c of
           [] \<Rightarrow> Inl StopIteration
         | (old_key, _) # _ \<Rightarrow>
             Inr (c\<lparr>store := AList.update key (now + real_of_int (ttl c), val)
                               (AList.delete old_key (store c))\<rparr>))
      else Inr (c\<lparr>store := AList.update key (now + real_of_int (ttl c), val) (store c)\<rparr>))"

text \<open>
  The builder is an effectful coroutine: \<open>creator n\<close> is the value its invocation number
  \<open>n\<close> (counted from 0 over the whole run) returns, and the running count of invocations is
  threaded with the cache.  A call returns its value, or the exception it raised, together
  with the cache and the count it leaves behind.
\<close>

definition aget_or_set ::
  "(nat \<Rightarrow> 'v option) \<Rightarrow> string \<Rightarrow> real \<Rightarrow> real \<Rightarrow> 'v ttl_cache \<times> nat
     \<Rightarrow> (cache_error + 'v option) \<times> 'v ttl_cache \<times> nat" where
  \<comment> \<open>\<open>TTLCache.aget_or_set\<close> run without interruption: the clock reads \<open>t_get\<close> in \<open>get\<close> and
      \<open>t_set\<close> in \<open>set\<close>.\<close>
  "aget_or_set creator key t_get t_set st =
     (case st of (c, calls) \<Rightarrow>
        (case ttl_get c key t_get of
           (Some hit, c') \<Rightarrow> (Inr (Some hit), c', calls)
         | (None, c') \<Rightarrow>
             (let val = creator calls in
                case ttl_set c' key val t_set of
                  Inl e \<Rightarrow> (Inl e, c', calls + 1)
                | Inr c'' \<Rightarrow> (Inr val, c'', calls + 1))))"

fun run_calls ::
  "(nat \<Rightarrow> 'v option) \<Rightarrow> string \<Rightarrow> (real \<times> real) list \<Rightarrow> 'v ttl_cache \<times> nat
     \<Rightarrow> (cache_error + 'v option) list \<times> 'v ttl_cache \<times> nat" where
  \<comment> \<open>Calls made one after another, each finished before the next starts.\<close>
  "run_calls creator key [] st = ([], st)"
| "run_calls creator key ((t_get, t_set) # ts) st =
     (case aget_or_set creator key t_get t_set st of
        (r, st') \<Rightarrow>
          (case run_calls creator key ts st' of
             (rs, st'') \<Rightarrow> (r # rs, st'')))"

text \<open>
  Concurrent callers on one event loop.  A caller is suspended only at \<open>await creator()\<close>:
  its first step runs \<open>get\<close> and, on a miss, starts the builder; its second step resumes it
  with the builder's value and runs \<open>set\<close>.  An event \<open>(i, now)\<close> lets caller \<open>i\<close> take its
  next step at clock \<open>now\<close>.
\<close>

datatype 'v task = Start | Awaiting "'v option" | Done "'v option" | Failed cache_error

record 'v loop_state =
  cache :: "'v ttl_cache"
  calls :: nat
  tasks :: "'v task list"

definition step ::
  "(nat \<Rightarrow> 'v option) \<Rightarrow> string \<Rightarrow> 'v loop_state \<Rightarrow> nat \<times> real \<Rightarrow> 'v loop_state" where
  "step creator key s ev =
     (case ev of (i, now) \<Rightarrow>
        if length (tasks s) \<le> i then s
        else
          (case tasks s ! i of
             Start \<Rightarrow>
               (case ttl_get (cache s) key now of
                  (Some hit, c') \<Rightarrow> s\<lparr>cache := c', tasks := (tasks s)[i := Done (Some hit)]\<rparr>
                | (None, c') \<Rightarrow>
                    s\<lparr>cache := c', calls := calls s + 1,
                      tasks := (tasks s)[i := Awaiting (creator (calls s))]\<rparr>)
           | Awaiting val \<Rightarrow>
               (case ttl_set (cache s) key val now of
                  Inl e \<Rightarrow> s\<lparr>tasks := (tasks s)[i := Failed e]\<rparr>
                | Inr c' \<Rightarrow> s\<lparr>cache := c', tasks := (tasks s)[i := Done val]\<rparr>)
           | Done v \<Rightarrow> s
           | Failed e \<Rightarrow> s))"

definition run_events ::
  "(nat \<Rightarrow> 'v option) \<Rightarrow> string \<Rightarrow> (nat \<times> real) list \<Rightarrow> 'v loop_state \<Rightarrow> 'v loop_state" where
  "run_events creator key evs s = foldl (step creator key) s evs"

definition holds_no_value :: "'v ttl_cache \<Rightarrow> string \<Rightarrow> bool" where
  \<comment> \<open>the key is absent, or what is stored for it is \<open>None\<close>\<close>
  "holds_no_value c k =
     (case map_of (store c) k of None \<Rightarrow> True | Some (expiry, val) \<Rightarrow> val = None)"

lemma ttl_get_cached_None:
  "map_of (store c) k = Some (expiry, None) \<Longrightarrow> \<not> expiry < now \<Longrightarrow> ttl_get c k now = (None, c)"
  by (simp add: ttl_get_def)

lemma ttl_get_absent: "map_of (store c) k = None \<Longrightarrow> ttl_get c k now = (None, c)"
  by (simp add: ttl_get_def)

lemma ttl_get_maxsize: "maxsize (snd (ttl_get c k now)) = maxsize c"
  by (simp add: ttl_get_def split: option.splits prod.splits)

lemma ttl_get_ttl: "ttl (snd (ttl_get c k now)) = ttl c"
  by (simp add: ttl_get_def split: option.splits prod.splits)

lemma ttl_get_no_value:
  "holds_no_value c k \<Longrightarrow> fst (ttl_get c k now) = None \<and> holds_no_value (snd (ttl_get c k now)) k"
  by (auto simp: holds_no_value_def ttl_get_def delete_conv' split: option.splits)

lemma ttl_set_None_no_value:
  "ttl_set c k None now = Inr c' \<Longrightarrow> holds_no_value c' k"
  by (auto simp: ttl_set_def holds_no_value_def update_conv' split: if_splits list.splits)

lemma ttl_set_ok:
  "1 \<le> maxsize c \<Longrightarrow>
   \<exists>c'. ttl_set c k v now = Inr c' \<and> maxsize c' = maxsize c \<and> ttl c' = ttl c
        \<and> map_of (store c') k = Some (now + real_of_int (ttl c), v)"
  by (cases "store c") (auto simp: ttl_set_def update_conv')

lemma aget_or_set_no_value:
  assumes "holds_no_value c k"
  shows "\<exists>r c'. aget_or_set creator k g t (c, n) = (r, c', n + 1)
           \<and> (r = Inr (creator n) \<or> r = Inl StopIteration)
           \<and> (creator n = None \<longrightarrow> holds_no_value c' k)"
proof -
  obtain c1 where g: "ttl_get c k g = (None, c1)" and h1: "holds_no_value c1 k"
    using ttl_get_no_value [OF assms, of g] by (cases "ttl_get c k g") auto
  show ?thesis
  proof (cases "ttl_set c1 k (creator n) t")
    case (Inl e)
    then have "aget_or_set creator k g t (c, n) = (Inl StopIteration, c1, n + 1)"
      by (cases e) (simp add: aget_or_set_def g)
    with h1 show ?thesis by simp
  next
    case (Inr c2)
    then have "aget_or_set creator k g t (c, n) = (Inr (creator n), c2, n + 1)"
      by (simp add: aget_or_set_def g)
    moreover have "creator n = None \<longrightarrow> holds_no_value c2 k"
      using Inr ttl_set_None_no_value [of c1 k t c2] by auto
    ultimately show ?thesis by simp
  qed
qed

lemma aget_or_set_miss:
  assumes "fst (ttl_get c k g) = None" and "1 \<le> maxsize c"
  shows "\<exists>c'. aget_or_set creator k g t (c, n) = (Inr (creator n), c', n + 1)
           \<and> maxsize c' = maxsize c \<and> ttl c' = ttl c
           \<and> map_of (store c') k = Some (t + real_of_int (ttl c), creator n)"
proof -
  obtain c1 where g: "ttl_get c k g = (None, c1)"
    using assms(1) by (cases "ttl_get c k g") simp
  have m1: "maxsize c1 = maxsize c" and t1: "ttl c1 = ttl c"
    using ttl_get_maxsize [of c k g] ttl_get_ttl [of c k g] g by simp_all
  from ttl_set_ok [of c1 k "creator n" t] assms(2) m1 t1
  obtain c2 where s: "ttl_set c1 k (creator n) t = Inr c2" and m2: "maxsize c2 = maxsize c"
    and t2: "ttl c2 = ttl c"
    and l2: "map_of (store c2) k = Some (t + real_of_int (ttl c), creator n)"
    by auto
  have "aget_or_set creator k g t (c, n) = (Inr (creator n), c2, n + 1)"
    by (simp add: aget_or_set_def g s)
  with m2 t2 l2 show ?thesis by blast
qed

lemma run_calls_None_builder:
  assumes "\<And>n. creator n = None"
  shows "holds_no_value c k \<Longrightarrow>
         \<exists>rs c'. run_calls creator k ts (c, n) = (rs, c', n + length ts)
            \<and> length rs = length ts \<and> (\<forall>r \<in> set rs. r = Inr None \<or> r = Inl StopIteration)"
proof (induction ts arbitrary: c n)
  case Nil
  then show ?case by simp
next
  case (Cons p ts)
  obtain g t where p: "p = (g, t)" by (cases p)
  from aget_or_set_no_value [OF Cons.prems, of creator g t n] assms
  obtain r c1 where a: "aget_or_set creator k g t (c, n) = (r, c1, n + 1)"
    and r: "r = Inr None \<or> r = Inl StopIteration"
    and h: "holds_no_value c1 k"
    by auto
  from Cons.IH [OF h, of "n + 1"]
  obtain rs c2 where rc: "run_calls creator k ts (c1, n + 1) = (rs, c2, n + 1 + length ts)"
    and l: "length rs = length ts" and all: "\<forall>r \<in> set rs. r = Inr None \<or> r = Inl StopIteration"
    by auto
  from a rc l all r show ?case by (auto simp: p)
qed

text \<open>
  C10.  When the stored, unexpired value of a key is \<open>None\<close>, \<open>get\<close> returns \<open>None\<close> and
  leaves the cache as it is, exactly as it does for an absent key; \<open>aget_or_set\<close> on that key
  therefore invokes the builder; and with a builder that returns \<open>None\<close>, every one of any
  number of successive calls invokes it again, whatever the clock reads (so also within
  the TTL), each call returning \<open>None\<close> (or raising from \<open>set\<close>).
\<close>

theorem cached_None_is_a_miss:
  assumes "map_of (store c) k = Some (expiry, None)" and "\<not> expiry < now"
  shows "ttl_get c k now = (None, c)
       \<and> ttl_get (c\<lparr>store := AList.delete k (store c)\<rparr>) k now
           = (None, c\<lparr>store := AList.delete k (store c)\<rparr>)
       \<and> (\<exists>r c'. aget_or_set creator k now t (c, n) = (r, c', n + 1)
              \<and> (r = Inr (creator n) \<or> r = Inl StopIteration))
       \<and> ((\<forall>m. creator m = None) \<longrightarrow>
            (\<exists>rs c'. run_calls creator k ts (c, n) = (rs, c', n + length ts)
               \<and> length rs = length ts
               \<and> (\<forall>r \<in> set rs. r = Inr None \<or> r = Inl StopIteration)))"
proof (intro conjI impI)
  have h: "holds_no_value c k"
    using assms(1) by (simp add: holds_no_value_def)
  show "ttl_get c k now = (None, c)"
    using assms by (rule ttl_get_cached_None)
  show "ttl_get (c\<lparr>store := AList.delete k (store c)\<rparr>) k now
           = (None, c\<lparr>store := AList.delete k (store c)\<rparr>)"
    by (rule ttl_get_absent) (simp add: delete_conv')
  show "\<exists>r c'. aget_or_set creator k now t (c, n) = (r, c', n + 1)
              \<and> (r = Inr (creator n) \<or> r = Inl StopIteration)"
    using aget_or_set_no_value [OF h, of creator now t n] by blast
  assume "\<forall>m. creator m = None"
  then show "\<exists>rs c'. run_calls creator k ts (c, n) = (rs, c', n + length ts)
               \<and> length rs = length ts
               \<and> (\<forall>r \<in> set rs. r = Inr None \<or> r = Inl StopIteration)"
    using run_calls_None_builder [of creator c k ts n] h by blast
qed

theorem cached_None_is_a_miss_witness:
  "ttl_get \<lparr>ttl = 60, maxsize = 1000, store = [(''k'', (100, None :: nat option))]\<rparr> ''k'' 50
     = (None, \<lparr>ttl = 60, maxsize = 1000, store = [(''k'', (100, None))]\<rparr>)
   \<and> (\<exists>rs c'. run_calls (\<lambda>m. None) ''k'' [(50, 51), (52, 53)]
               (\<lparr>ttl = 60, maxsize = 1000, store = [(''k'', (100, None :: nat option))]\<rparr>, 0)
             = (rs, c', 2))"
proof -
  let ?c = "\<lparr>ttl = 60, maxsize = 1000, store = [(''k'', (100, None :: nat option))]\<rparr>"
  have h1: "map_of (store ?c) ''k'' = Some (100, None)" by simp
  have h2: "\<not> (100::real) < 50" by simp
  have h3: "\<forall>m::nat. (\<lambda>m. None :: nat option) m = None" by simp
  from cached_None_is_a_miss [OF h1 h2, of "\<lambda>m. None" 51 0 "[(50, 51), (52, 53)]"] h3
  have "ttl_get ?c ''k'' 50 = (None, ?c)"
    and "\<exists>rs c'. run_calls (\<lambda>m. None) ''k'' [(50, 51), (52, 53)] (?c, 0)
           = (rs, c', 0 + length [(50 :: real, 51 :: real), (52, 53)])"
    by blast+
  then show ?thesis by (simp del: run_calls.simps add: numeral_2_eq_2)
qed

lemma run_calls_hits:
  "map_of (store c) k = Some (expiry, Some v) \<Longrightarrow> \<forall>p \<in> set ts. fst p \<le> expiry \<Longrightarrow>
   run_calls creator k ts (c, n) = (replicate (length ts) (Inr (Some v)), c, n)"
proof (induction ts)
  case Nil
  then show ?case by simp
next
  case (Cons p ts)
  obtain g t where p: "p = (g, t)" by (cases p)
  have "\<not> expiry < g" using Cons.prems(2) p by auto
  then have "aget_or_set creator k g t (c, n) = (Inr (Some v), c, n)"
    using Cons.prems(1) by (simp add: aget_or_set_def ttl_get_def)
  moreover have "run_calls creator k ts (c, n) = (replicate (length ts) (Inr (Some v)), c, n)"
    using Cons by simp
  ultimately show ?case by (simp add: p)
qed

lemma step_twice_is_aget_or_set:
  assumes "i < length (tasks s)" and "tasks s ! i = Start"
  shows "(case aget_or_set creator k g t (cache s, calls s) of
            (r, c', n') \<Rightarrow>
              step creator k (step creator k s (i, g)) (i, t)
                = s\<lparr>cache := c', calls := n',
                    tasks := (tasks s)[i := (case r of Inl e \<Rightarrow> Failed e | Inr v \<Rightarrow> Done v)]\<rparr>)"
  using assms
  by (auto simp: step_def aget_or_set_def Let_def split: prod.splits option.splits sum.splits)

text \<open>
  C1 (as amended).  When the calls on a key do not overlap (each finishes before the next
  starts), the first one misses, the builder returns a value other than \<open>None\<close>, and every
  later call reads the clock no later than the expiry of the entry the first call stored
  (the clock at its \<open>set\<close> plus the TTL), then the builder is invoked exactly once and every
  caller receives the value it built.  The cache holds at least one entry.
\<close>

theorem sequential_calls_build_once:
  assumes "fst (ttl_get c k g) = None" and "1 \<le> maxsize c" and "creator n = Some v"
    and "\<forall>p \<in> set ts. fst p \<le> t + real_of_int (ttl c)"
  shows "\<exists>c'. run_calls creator k ((g, t) # ts) (c, n)
               = (replicate (Suc (length ts)) (Inr (Some v)), c', n + 1)"
proof -
  from aget_or_set_miss [OF assms(1,2), of creator t n] assms(3)
  obtain c1 where a: "aget_or_set creator k g t (c, n) = (Inr (Some v), c1, n + 1)"
    and l: "map_of (store c1) k = Some (t + real_of_int (ttl c), Some v)"
    by auto
  have "run_calls creator k ts (c1, n + 1)
      = (replicate (length ts) (Inr (Some v)), c1, n + 1)"
    using run_calls_hits [OF l assms(4)] .
  with a show ?thesis by simp
qed

theorem sequential_calls_build_once_witness:
  "\<exists>c'. run_calls (\<lambda>m. Some m) ''k'' [(0, 1), (2, 3), (61, 62)]
           (\<lparr>ttl = 60, maxsize = 1000, store = []\<rparr>, 0)
         = ([Inr (Some 0), Inr (Some 0), Inr (Some 0)], c', 1)"
  using sequential_calls_build_once
    [of "\<lparr>ttl = 60, maxsize = 1000, store = []\<rparr>" "''k''" 0 "\<lambda>m. Some m" 0 0
        "[(2, 3), (61, 62)]" 1]
  by (simp add: ttl_get_def del: run_calls.simps add: numeral_2_eq_2)

text \<open>
  The claim as written fails for overlapping callers: nothing in the cache records that a
  build is in flight.  Two callers that both run \<open>get\<close> before either reaches \<open>set\<close> both
  miss, the builder runs twice, and each caller returns the value of its own build.
\<close>

theorem concurrent_callers_counterexample:
  "calls (run_events (\<lambda>m. Some m) ''k'' [(0, 0), (1, 0), (0, 1), (1, 1)]
            \<lparr>cache = \<lparr>ttl = 60, maxsize = 1000, store = []\<rparr>, calls = 0,
             tasks = [Start, Start]\<rparr>) = 2
   \<and> tasks (run_events (\<lambda>m. Some m) ''k'' [(0, 0), (1, 0), (0, 1), (1, 1)]
            \<lparr>cache = \<lparr>ttl = 60, maxsize = 1000, store = []\<rparr>, calls = 0,
             tasks = [Start, Start]\<rparr>) = [Done (Some 0), Done (Some 1)]"
  by (simp add: run_events_def step_def ttl_get_def ttl_set_def)

section \<open>file\_handler/dataset\_indexer.py: pairing an instance with its solution\<close>

text \<open>
  Strings are byte strings here; \<open>str.lower()\<close> is modelled on ASCII letters, and
  \<open>pathlib.Path\<close> on POSIX paths: the name of a path is its last component that is neither
  empty nor \<open>.\<close>, and stem and suffix split the name at its last dot when that dot is neither
  the first nor the last character.
\<close>

definition py_lower_char :: "char \<Rightarrow> char" where
  \<comment> \<open>\<open>A\<close> to \<open>Z\<close> (codes 65 to 90) gain the bit of value 32; other bytes are kept.\<close>
  "py_lower_char c =
     (if 65 \<le> (of_char c :: nat) \<and> (of_char c :: nat) \<le> 90
      then (case c of Char b0 b1 b2 b3 b4 b5 b6 b7 \<Rightarrow> Char b0 b1 b2 b3 b4 True b6 b7)
      else c)"

definition py_lower :: "string \<Rightarrow> string" where
  "py_lower s = map py_lower_char s"

fun split_on :: "char \<Rightarrow> string \<Rightarrow> string list" where
  "split_on sep [] = [[]]"
| "split_on sep (c # cs) =
     (if c = sep then [] # split_on sep cs
      else (case split_on sep cs of
              [] \<Rightarrow> [[c]]
            | w # ws \<Rightarrow> (c # w) # ws))"

definition path_name :: "string \<Rightarrow> string" where
  \<comment> \<open>\<open>Path(s).name\<close>\<close>
  "path_name s =
     (case filter (\<lambda>part. part \<noteq> [] \<and> part \<noteq> ''.'') (split_on (CHR ''/'') s) of
        [] \<Rightarrow> []
      | p # ps \<Rightarrow> last (p # ps))"

fun rfind :: "char \<Rightarrow> string \<Rightarrow> nat option" where
  \<comment> \<open>\<open>name.rfind(c)\<close>, with \<open>None\<close> for \<open>-1\<close>\<close>
  "rfind c [] = None"
| "rfind c (x # xs) =
     (case rfind c xs of
        Some i \<Rightarrow> Some (Suc i)
      | None \<Rightarrow> if x = c then Some 0 else None)"

definition py_stem :: "string \<Rightarrow> string" where
  \<comment> \<open>\<open>Path.stem\<close> of a name\<close>
  "py_stem name =
     (case rfind (CHR ''.'') name of
        None \<Rightarrow> name
      | Some i \<Rightarrow> if 0 < i \<and> i + 1 < length name then take i name else name)"

definition py_suffix :: "string \<Rightarrow> string" where
  \<comment> \<open>\<open>Path.suffix\<close> of a name\<close>
  "py_suffix name =
     (case rfind (CHR ''.'') name of
        None \<Rightarrow> []
      | Some i \<Rightarrow> if 0 < i \<and> i + 1 < length name then drop i name else [])"

definition INSTANCE_EXTS :: "string list" where
  "INSTANCE_EXTS = [''.vrp'', ''.xml'', ''.txt'']"

definition SOLUTION_EXTS :: "string list" where
  "SOLUTION_EXTS = [''.sol'', ''.xml'', ''.txt'']"

text \<open>
  A dataset directory as \<open>find_pair\<close> sees it: its name and what \<open>ds.rglob("*")\<close> yields, in
  that order, each path relative to the dataset root and flagged by \<open>is_file()\<close>.  A
  \<open>FileEntry\<close> (and the dict \<open>_pub\<close> makes of it) is determined by the path it was built
  from, so the model returns the path entry itself.
\<close>

record path_entry =
  relpath :: string
  is_file :: bool

record dataset_dir =
  ds_name :: string
  ds_files :: "path_entry list"

definition canonicalize_dataset :: "dataset_dir list \<Rightarrow> string \<Rightarrow> dataset_dir option" where
  \<comment> \<open>\<open>_canonicalize_dataset\<close> over the list \<open>_iter_datasets()\<close> returns\<close>
  "canonicalize_dataset dss name =
     find (\<lambda>ds. py_lower (ds_name ds) = py_lower name) dss"

fun find_pair_loop ::
  "string \<Rightarrow> path_entry list \<Rightarrow> path_entry option \<Rightarrow> path_entry option
     \<Rightarrow> path_entry option \<times> path_entry option" where
  "find_pair_loop target [] instance solution = (instance, solution)"
| "find_pair_loop target (p # ps) instance solution =
     (if \<not> is_file p then find_pair_loop target ps instance solution
      else if py_lower (py_stem (path_name (relpath p))) \<noteq> target
      then find_pair_loop target ps instance solution
      else
        (let suf = py_lower (py_suffix (path_name (relpath p)));
             instance' = (if suf \<in> set INSTANCE_EXTS \<and> instance = None then Some p
                          else instance);
             solution' = (if suf \<in> set INSTANCE_EXTS \<and> instance = None then solution
                          else if suf \<in> set SOLUTION_EXTS \<and> solution = None then Some p
                          else solution)
         in if instance' \<noteq> None \<and> solution' \<noteq> None then (instance', solution')
            else find_pair_loop target ps instance' solution'))"

definition find_pair ::
  "dataset_dir list \<Rightarrow> string \<Rightarrow> string \<Rightarrow> path_entry option \<times> path_entry option" where
  "find_pair dss dataset name =
     (case canonicalize_dataset dss dataset of
        None \<Rightarrow> (None, None)
      | Some ds \<Rightarrow>
          find_pair_loop (py_lower (py_stem (path_name name))) (ds_files ds) None None)"

text \<open>The pairing as the specification words it, for comparison with the code.\<close>

definition stem_matches :: "string \<Rightarrow> path_entry \<Rightarrow> bool" where
  "stem_matches target p \<longleftrightarrow>
     is_file p \<and> py_lower (py_stem (path_name (relpath p))) = target"

definition has_instance_ext :: "path_entry \<Rightarrow> bool" where
  "has_instance_ext p \<longleftrightarrow> py_lower (py_suffix (path_name (relpath p))) \<in> set INSTANCE_EXTS"

definition has_solution_ext :: "path_entry \<Rightarrow> bool" where
  "has_solution_ext p \<longleftrightarrow> py_lower (py_suffix (path_name (relpath p))) \<in> set SOLUTION_EXTS"

definition spec_find_pair ::
  "dataset_dir list \<Rightarrow> string \<Rightarrow> string \<Rightarrow> path_entry option \<times> path_entry option" where
  \<comment> \<open>first file with an instance extension, first file with a solution extension\<close>
  "spec_find_pair dss dataset name =
     (case canonicalize_dataset dss dataset of
        None \<Rightarrow> (None, None)
      | Some ds \<Rightarrow>
          (let cand = filter (stem_matches (py_lower (py_stem (path_name name)))) (ds_files ds)
           in (find has_instance_ext cand, find has_solution_ext cand)))"

lemma stem_of_plain_and_suffixed_name:
  "py_lower (py_stem (path_name ''c101'')) = ''c101''"
  "py_lower (py_stem (path_name ''c101.vrp'')) = ''c101''"
  by (simp_all add: py_lower_def py_stem_def path_name_def py_lower_char_def)

lemma find_pair_loop_char:
  "find_pair_loop target files inst sol =
     (let cand = filter (stem_matches target) files;
          or_else = (\<lambda>found. case sol of Some s \<Rightarrow> Some s | None \<Rightarrow> found)
      in case inst of
           Some i \<Rightarrow> (Some i, or_else (find has_solution_ext cand))
         | None \<Rightarrow>
             (case find has_instance_ext cand of
                None \<Rightarrow> (None, or_else (find has_solution_ext cand))
              | Some f \<Rightarrow> (Some f, or_else (find has_solution_ext (remove1 f cand)))))"
proof (induction files arbitrary: inst sol)
  case Nil
  then show ?case by (simp split: option.splits)
next
  case (Cons p ps)
  show ?case
  proof (cases "stem_matches target p")
    case False
    then show ?thesis
      using Cons.IH [of inst sol] by (auto simp: stem_matches_def)
  next
    case True
    then have m: "is_file p" "py_lower (py_stem (path_name (relpath p))) = target"
      by (simp_all add: stem_matches_def)
    have ni: "\<not> has_instance_ext p \<Longrightarrow> find has_instance_ext c = Some f \<Longrightarrow> f \<noteq> p" for c f
      by (auto simp: find_Some_iff)
    show ?thesis
      using True m ni
      by (auto simp: Cons.IH Let_def has_instance_ext_def [symmetric]
            has_solution_ext_def [symmetric] split: option.splits)
  qed
qed

text \<open>
  C9 (as amended).  \<open>find_pair\<close> depends on the name only through the lowercased stem, so
  \<open>"c101"\<close> and \<open>"c101.vrp"\<close> give the same result.  Among the files of the dataset whose
  lowercased stem is that target, in listing order, the instance is the first with an
  instance extension; the solution is the first with a solution extension among the files
  other than the one taken as instance (a \<open>.xml\<close> or \<open>.txt\<close> file taken as the instance is
  never also the solution).  An unknown dataset gives no instance and no solution.
\<close>

theorem find_pair_by_stem:
  "(py_lower (py_stem (path_name n1)) = py_lower (py_stem (path_name n2))
      \<longrightarrow> find_pair dss d n1 = find_pair dss d n2)
   \<and> find_pair dss d ''c101'' = find_pair dss d ''c101.vrp''
   \<and> find_pair dss d name =
       (case canonicalize_dataset dss d of
          None \<Rightarrow> (None, None)
        | Some ds \<Rightarrow>
            (let cand = filter (stem_matches (py_lower (py_stem (path_name name)))) (ds_files ds)
             in case find has_instance_ext cand of
                  None \<Rightarrow> (None, find has_solution_ext cand)
                | Some f \<Rightarrow> (Some f, find has_solution_ext (remove1 f cand))))"
proof (intro conjI impI)
  assume "py_lower (py_stem (path_name n1)) = py_lower (py_stem (path_name n2))"
  then show "find_pair dss d n1 = find_pair dss d n2"
    by (simp add: find_pair_def split: option.splits)
next
  show "find_pair dss d ''c101'' = find_pair dss d ''c101.vrp''"
    unfolding find_pair_def stem_of_plain_and_suffixed_name ..
next
  show "find_pair dss d name =
       (case canonicalize_dataset dss d of
          None \<Rightarrow> (None, None)
        | Some ds \<Rightarrow>
            (let cand = filter (stem_matches (py_lower (py_stem (path_name name)))) (ds_files ds)
             in case find has_instance_ext cand of
                  None \<Rightarrow> (None, find has_solution_ext cand)
                | Some f \<Rightarrow> (Some f, find has_solution_ext (remove1 f cand))))"
    by (simp add: find_pair_def find_pair_loop_char Let_def split: option.splits)
qed

theorem find_pair_by_stem_witness:
  "find_pair [\<lparr>ds_name = ''Solomon'', ds_files =
       [\<lparr>relpath = ''sols/C101.SOL'', is_file = True\<rparr>,
        \<lparr>relpath = ''c101.txt'', is_file = True\<rparr>,
        \<lparr>relpath = ''r101.vrp'', is_file = True\<rparr>]\<rparr>] ''solomon'' ''C101.txt''
   = find_pair [\<lparr>ds_name = ''Solomon'', ds_files =
       [\<lparr>relpath = ''sols/C101.SOL'', is_file = True\<rparr>,
        \<lparr>relpath = ''c101.txt'', is_file = True\<rparr>,
        \<lparr>relpath = ''r101.vrp'', is_file = True\<rparr>]\<rparr>] ''solomon'' ''c101''"
  using find_pair_by_stem [of "''C101.txt''" "''c101''"
      "[\<lparr>ds_name = ''Solomon'', ds_files =
       [\<lparr>relpath = ''sols/C101.SOL'', is_file = True\<rparr>,
        \<lparr>relpath = ''c101.txt'', is_file = True\<rparr>,
        \<lparr>relpath = ''r101.vrp'', is_file = True\<rparr>]\<rparr>]" "''solomon''" "''c101''",
      THEN conjunct1]
  by (simp add: py_lower_def py_stem_def path_name_def py_lower_char_def)

text \<open>
  The claim as written makes the solution the first matching file with a solution
  extension.  A dataset holding only \<open>c101.txt\<close> shows the difference: the file is taken as
  the instance and no solution is returned.
\<close>

theorem find_pair_first_solution_counterexample:
  "find_pair [\<lparr>ds_name = ''solomon'', ds_files = [\<lparr>relpath = ''c101.txt'', is_file = True\<rparr>]\<rparr>]
       ''solomon'' ''c101''
     = (Some \<lparr>relpath = ''c101.txt'', is_file = True\<rparr>, None)
   \<and> spec_find_pair
       [\<lparr>ds_name = ''solomon'', ds_files = [\<lparr>relpath = ''c101.txt'', is_file = True\<rparr>]\<rparr>]
       ''solomon'' ''c101''
     = (Some \<lparr>relpath = ''c101.txt'', is_file = True\<rparr>,
        Some \<lparr>relpath = ''c101.txt'', is_file = True\<rparr>)"
  by (simp add: find_pair_def spec_find_pair_def canonicalize_dataset_def stem_matches_def
      has_instance_ext_def has_solution_ext_def INSTANCE_EXTS_def SOLUTION_EXTS_def
      py_lower_def py_stem_def py_suffix_def path_name_def py_lower_char_def)

section \<open>file\_handler/solomon\_loader.py: the Solomon parser\<close>

text \<open>
  The parser reads the numeric tokens of each line after the \<open>CUST NO.\<close> header with a
  regular expression.  The model starts from what the expression finds: for every such
  line the list of its numeric tokens, each a decimal number; \<open>None\<close> stands for a file
  without the header.  \<open>int(float(tok))\<close> truncates the token's value.
\<close>

record solomon_row =
  row_id :: int
  row_x :: real
  row_y :: real
  row_demand :: int
  row_ready :: int
  row_due :: int
  row_service :: int

definition parse_row :: "real list \<Rightarrow> solomon_row option" where
  \<comment> \<open>a line with fewer than 7 numbers is skipped\<close>
  "parse_row nums =
     (if length nums < 7 then None
      else Some \<lparr>row_id = py_int_of_float (nums ! 0), row_x = nums ! 1, row_y = nums ! 2,
                 row_demand = py_int_of_float (nums ! 3),
                 row_ready = py_int_of_float (nums ! 4),
                 row_due = py_int_of_float (nums ! 5),
                 row_service = py_int_of_float (nums ! 6)\<rparr>)"

definition parse_rows :: "real list list \<Rightarrow> solomon_row list" where
  "parse_rows ls = List.map_filter parse_row ls"

record solomon_arrays =
  sa_coords :: "(real \<times> real) list"
  sa_demands :: "int list"
  sa_ready :: "int list"
  sa_due :: "int list"
  sa_service :: "int list"

definition store_row :: "int \<Rightarrow> solomon_arrays \<Rightarrow> solomon_row \<Rightarrow> solomon_arrays" where
  \<comment> \<open>the body of \<open>for r in rows\<close>; \<open>due[i]\<close> is raised to the row's \<open>ready\<close>. \<close>
  "store_row n st r =
     (let i = row_id r in
      if 0 \<le> i \<and> i < n then
        st\<lparr>sa_coords := (sa_coords st)[nat i := (row_x r, row_y r)],
           sa_demands := (sa_demands st)[nat i := row_demand r],
           sa_ready := (sa_ready st)[nat i := row_ready r],
           sa_due := (sa_due st)[nat i := max (row_ready r) (row_due r)],
           sa_service := (sa_service st)[nat i := row_service r]\<rparr>
      else st)"

definition widen_depot :: "int \<Rightarrow> int \<Rightarrow> solomon_arrays \<Rightarrow> solomon_arrays" where
  \<comment> \<open>the depot's window is made to cover the widest extent\<close>
  "widen_depot n depot_index st =
     (let max_due = (case sa_due st of [] \<Rightarrow> 10 ^ 9 | d # ds \<Rightarrow> fold max ds d) in
      if 0 \<le> depot_index \<and> depot_index < n then
        st\<lparr>sa_ready := (sa_ready st)[nat depot_index := min (sa_ready st ! nat depot_index) 0],
           sa_due := (sa_due st)[nat depot_index := max (sa_due st ! nat depot_index) max_due]\<rparr>
      else st)"

fun str_nat :: "nat \<Rightarrow> string" where
  \<comment> \<open>\<open>str(i)\<close> of a non-negative int\<close>
  "str_nat n =
     (if n < 10 then [char_of (48 + n)] else str_nat (n div 10) @ [char_of (48 + n mod 10)])"

declare str_nat.simps [simp del]

record solomon_waypoint =
  wp_id :: string
  wp_x :: real
  wp_y :: real
  wp_lat :: real
  wp_lon :: real
  wp_demand :: int
  wp_service_time :: int
  wp_time_window :: "int list"
  wp_depot :: bool

definition SECONDS_PER_MIN :: int where
  "SECONDS_PER_MIN = 60"

definition emit_waypoint :: "int \<Rightarrow> solomon_arrays \<Rightarrow> nat \<Rightarrow> solomon_waypoint" where
  "emit_waypoint depot_index st i =
     \<lparr>wp_id = str_nat i,
      wp_x = fst (sa_coords st ! i), wp_y = snd (sa_coords st ! i),
      wp_lat = fst (sa_coords st ! i), wp_lon = snd (sa_coords st ! i),
      wp_demand = sa_demands st ! i,
      wp_service_time = (sa_service st ! i) * SECONDS_PER_MIN,
      wp_time_window = [(sa_ready st ! i) * SECONDS_PER_MIN, (sa_due st ! i) * SECONDS_PER_MIN],
      wp_depot = (int i = depot_index)\<rparr>"

record solomon_instance =
  si_waypoints :: "solomon_waypoint list"
  si_depot_index :: int

datatype solomon_error = NoRowsParsed

definition load_solomon_txt :: "real list list option \<Rightarrow> solomon_error + solomon_instance" where
  \<comment> \<open>\<open>load_solomon_txt\<close> up to the waypoints and the depot index; fleet, matrix and meta
      of the returned dict do not enter the waypoints.\<close>
  "load_solomon_txt data =
     (case (case data of None \<Rightarrow> [] | Some ls \<Rightarrow> parse_rows ls) of
        [] \<Rightarrow> Inl NoRowsParsed
      | r0 # rs \<Rightarrow>
          (let rows = r0 # rs;
               max_id = fold max (map row_id rs) (row_id r0);
               n = max_id + 1;
               init = \<lparr>sa_coords = replicate (nat n) (0, 0),
                       sa_demands = replicate (nat n) 0,
                       sa_ready = replicate (nat n) 0,
                       sa_due = replicate (nat n) (10 ^ 9),
                       sa_service = replicate (nat n) 0\<rparr>;
               filled = foldl (store_row n) init rows;
               depot_index = (if \<exists>r \<in> set rows. row_id r = 0 then 0
                              else fold min (map row_id rs) (row_id r0));
               st = widen_depot n depot_index filled
           in Inr \<lparr>si_waypoints = map (emit_waypoint depot_index st) [0..<length (sa_coords st)],
                   si_depot_index = depot_index\<rparr>))"


definition last_row_with_id :: "solomon_row list \<Rightarrow> nat \<Rightarrow> solomon_row option" where
  \<comment> \<open>the row that decides node \<open>i\<close>: the last one carrying that id\<close>
  "last_row_with_id rows i = find (\<lambda>r. row_id r = int i) (rev rows)"

lemma store_row_lengths [simp]:
  "length (sa_coords (store_row n st r)) = length (sa_coords st)"
  "length (sa_demands (store_row n st r)) = length (sa_demands st)"
  "length (sa_ready (store_row n st r)) = length (sa_ready st)"
  "length (sa_due (store_row n st r)) = length (sa_due st)"
  "length (sa_service (store_row n st r)) = length (sa_service st)"
  by (simp_all add: store_row_def Let_def)

lemma foldl_store_row_lengths [simp]:
  "length (sa_coords (foldl (store_row n) st rows)) = length (sa_coords st)"
  "length (sa_demands (foldl (store_row n) st rows)) = length (sa_demands st)"
  "length (sa_ready (foldl (store_row n) st rows)) = length (sa_ready st)"
  "length (sa_due (foldl (store_row n) st rows)) = length (sa_due st)"
  "length (sa_service (foldl (store_row n) st rows)) = length (sa_service st)"
  by (induction rows arbitrary: st; simp)+

lemma store_row_at:
  assumes "length (sa_ready st) = nat n" "length (sa_due st) = nat n"
    "length (sa_service st) = nat n" "i < nat n"
  shows "sa_ready (store_row n st r) ! i
           = (if row_id r = int i then row_ready r else sa_ready st ! i)"
    and "sa_due (store_row n st r) ! i
           = (if row_id r = int i then max (row_ready r) (row_due r) else sa_due st ! i)"
    and "sa_service (store_row n st r) ! i
           = (if row_id r = int i then row_service r else sa_service st ! i)"
proof -
  have ne: "nat (row_id r) \<noteq> i" if "0 \<le> row_id r" "row_id r \<noteq> int i"
    using that by auto
  have eq: "0 \<le> row_id r \<and> row_id r < n \<and> nat (row_id r) = i" if "row_id r = int i"
    using that assms(4) by auto
  show "sa_ready (store_row n st r) ! i
           = (if row_id r = int i then row_ready r else sa_ready st ! i)"
    using assms ne eq by (auto simp: store_row_def Let_def)
  show "sa_due (store_row n st r) ! i
           = (if row_id r = int i then max (row_ready r) (row_due r) else sa_due st ! i)"
    using assms ne eq by (auto simp: store_row_def Let_def)
  show "sa_service (store_row n st r) ! i
           = (if row_id r = int i then row_service r else sa_service st ! i)"
    using assms ne eq by (auto simp: store_row_def Let_def)
qed

lemma foldl_store_row_at:
  assumes "length (sa_ready st) = nat n" "length (sa_due st) = nat n"
    "length (sa_service st) = nat n" "i < nat n"
  shows "sa_ready (foldl (store_row n) st rows) ! i
           = (case last_row_with_id rows i of None \<Rightarrow> sa_ready st ! i | Some r \<Rightarrow> row_ready r)
       \<and> sa_due (foldl (store_row n) st rows) ! i
           = (case last_row_with_id rows i of None \<Rightarrow> sa_due st ! i
              | Some r \<Rightarrow> max (row_ready r) (row_due r))
       \<and> sa_service (foldl (store_row n) st rows) ! i
           = (case last_row_with_id rows i of None \<Rightarrow> sa_service st ! i | Some r \<Rightarrow> row_service r)"
proof (induction rows rule: rev_induct)
  case Nil
  show ?case by (simp add: last_row_with_id_def)
next
  case (snoc r rows)
  let ?st = "foldl (store_row n) st rows"
  have len: "length (sa_ready ?st) = nat n" "length (sa_due ?st) = nat n"
    "length (sa_service ?st) = nat n"
    using assms by simp_all
  have step: "foldl (store_row n) st (rows @ [r]) = store_row n ?st r"
    by simp
  have last: "last_row_with_id (rows @ [r]) i
      = (if row_id r = int i then Some r else last_row_with_id rows i)"
    by (simp add: last_row_with_id_def)
  show ?case
    unfolding step last
    using store_row_at [OF len assms(4), of r] snoc.IH by simp
qed

lemma widen_depot_lengths [simp]:
  "length (sa_coords (widen_depot n d st)) = length (sa_coords st)"
  "length (sa_ready (widen_depot n d st)) = length (sa_ready st)"
  "length (sa_due (widen_depot n d st)) = length (sa_due st)"
  "length (sa_service (widen_depot n d st)) = length (sa_service st)"
  by (simp_all add: widen_depot_def Let_def)

lemma widen_depot_service [simp]: "sa_service (widen_depot n d st) = sa_service st"
  by (simp add: widen_depot_def Let_def)

lemma widen_depot_other:
  "int i \<noteq> d \<Longrightarrow> sa_ready (widen_depot n d st) ! i = sa_ready st ! i
     \<and> sa_due (widen_depot n d st) ! i = sa_due st ! i"
  by (auto simp: widen_depot_def Let_def)

lemma solomon_waypoint_at:
  assumes "load_solomon_txt (Some ls) = Inr inst"
    and "i < length (si_waypoints inst)"
    and "last_row_with_id (parse_rows ls) i = Some r"
  shows "wp_service_time (si_waypoints inst ! i) = row_service r * 60"
    and "int i \<noteq> si_depot_index inst \<Longrightarrow>
         wp_time_window (si_waypoints inst ! i)
           = [row_ready r * 60, max (row_ready r) (row_due r) * 60]"
proof -
  obtain r0 rs where rows: "parse_rows ls = r0 # rs"
    using assms(1) by (cases "parse_rows ls") (simp_all add: load_solomon_txt_def)
  define n where "n = fold max (map row_id rs) (row_id r0) + 1"
  define init where "init = \<lparr>sa_coords = replicate (nat n) (0, 0),
                       sa_demands = replicate (nat n) 0,
                       sa_ready = replicate (nat n) 0,
                       sa_due = replicate (nat n) (10 ^ 9),
                       sa_service = replicate (nat n) (0::int)\<rparr>"
  define d where "d = (if \<exists>r \<in> set (r0 # rs). row_id r = 0 then 0
                              else fold min (map row_id rs) (row_id r0))"
  define filled where "filled = foldl (store_row n) init (r0 # rs)"
  define st where "st = widen_depot n d filled"
  have inst: "inst = \<lparr>si_waypoints = map (emit_waypoint d st) [0..<length (sa_coords st)],
                   si_depot_index = d\<rparr>"
  proof -
    have "load_solomon_txt (Some ls)
        = Inr \<lparr>si_waypoints = map (emit_waypoint d st) [0..<length (sa_coords st)],
                si_depot_index = d\<rparr>"
      unfolding load_solomon_txt_def option.case rows list.case Let_def n_def init_def d_def
        st_def filled_def ..
    with assms(1) show ?thesis by simp
  qed
  have lens: "length (sa_coords st) = nat n"
    by (simp add: st_def filled_def init_def)
  have i: "i < nat n" using assms(2) by (simp add: inst lens)
  have wp: "si_waypoints inst ! i = emit_waypoint d st i"
    using i by (simp add: inst lens)
  have fill: "sa_ready filled ! i = row_ready r"
    "sa_due filled ! i = max (row_ready r) (row_due r)"
    "sa_service filled ! i = row_service r"
  proof -
    have l: "length (sa_ready init) = nat n" "length (sa_due init) = nat n"
      "length (sa_service init) = nat n"
      by (simp_all add: init_def)
    have lr: "last_row_with_id (r0 # rs) i = Some r"
      using assms(3) by (simp only: rows)
    show "sa_ready filled ! i = row_ready r"
      "sa_due filled ! i = max (row_ready r) (row_due r)"
      "sa_service filled ! i = row_service r"
      using foldl_store_row_at [OF l i, of "r0 # rs"] unfolding lr filled_def by simp_all
  qed
  show "wp_service_time (si_waypoints inst ! i) = row_service r * 60"
    by (simp add: wp emit_waypoint_def SECONDS_PER_MIN_def st_def fill)
  show "wp_time_window (si_waypoints inst ! i)
           = [row_ready r * 60, max (row_ready r) (row_due r) * 60]"
    if "int i \<noteq> si_depot_index inst"
  proof -
    have "int i \<noteq> d" using that by (simp add: inst)
    then show ?thesis
      using widen_depot_other [of i d n filled]
      by (simp add: wp emit_waypoint_def SECONDS_PER_MIN_def st_def fill)
  qed
qed

section \<open>api/solver\_routes.py: aligning the optional arrays\<close>

record matrix_result =
  distances :: "real list list"
  durations :: "real list list option"

record solver_arrays =
  arr_demands :: "int list option"
  arr_node_time_windows :: "int option list option list option"
  arr_node_service_times :: "int list option"

definition INF_TW :: int where
  \<comment> \<open>the local constant \<open>INF = 10**9\<close>\<close>
  "INF_TW = 10 ^ 9"

definition n_nodes_from_matrix :: "matrix_result \<Rightarrow> nat" where
  "n_nodes_from_matrix m =
     (if distances m \<noteq> [] then length (distances m)
      else (case durations m of
              None \<Rightarrow> 0
            | Some d \<Rightarrow> if d \<noteq> [] then length d else 0))"

definition normalize_tw :: "int option list option \<Rightarrow> int option list option" where
  \<comment> \<open>the body of \<open>for tw in padded\<close>.  The bounds are ints, so the \<open>math.isinf\<close> test is
      never true.\<close>
  "normalize_tw tw =
     (case tw of
        None \<Rightarrow> Some [Some 0, Some INF_TW]
      | Some [a, b] \<Rightarrow>
          (let start = (case a of None \<Rightarrow> 0 | Some v \<Rightarrow> v);
               end0 = (case b of None \<Rightarrow> INF_TW | Some v \<Rightarrow> v);
               end1 = (if end0 < start then start else end0)
           in Some [Some start, Some end1])
      | Some _ \<Rightarrow> Some [Some 0, Some INF_TW])"

definition normalize_optional_arrays_for_solver ::
  "string \<Rightarrow> matrix_result option \<Rightarrow> int list option \<Rightarrow> int option list option list option
     \<Rightarrow> int list option \<Rightarrow> solver_arrays" where
  "normalize_optional_arrays_for_solver solver_name matrix demands node_time_windows
       node_service_times =
     (case matrix of
        None \<Rightarrow> \<lparr>arr_demands = demands, arr_node_time_windows = node_time_windows,
                  arr_node_service_times = node_service_times\<rparr>
      | Some m \<Rightarrow>
          if solver_name \<noteq> ''pyomo'' \<and> solver_name \<noteq> ''ortools'' then
            \<lparr>arr_demands = demands, arr_node_time_windows = node_time_windows,
             arr_node_service_times = node_service_times\<rparr>
          else
            (let n = n_nodes_from_matrix m in
             if n = 0 then
               \<lparr>arr_demands = demands, arr_node_time_windows = node_time_windows,
                arr_node_service_times = node_service_times\<rparr>
             else
               \<lparr>arr_demands =
                  (case demands of
                     None \<Rightarrow> Some (replicate n 0)
                   | Some d \<Rightarrow> if length d \<noteq> n then Some (take n (d @ replicate n 0))
                               else Some d),
                arr_node_time_windows =
                  (case node_time_windows of
                     None \<Rightarrow> Some (replicate n (Some [Some 0, Some INF_TW]))
                   | Some tws \<Rightarrow>
                       Some (map normalize_tw
                               (take n tws @ replicate (n - length tws) (Some [None, None])))),
                arr_node_service_times =
                  (case node_service_times of
                     None \<Rightarrow> Some (replicate n 0)
                   | Some sv \<Rightarrow> if length sv \<noteq> n then Some (take n (sv @ replicate n 0))
                                else Some sv)\<rparr>))"

lemma normalize_tw_inverted:
  "e < s \<Longrightarrow> normalize_tw (Some [Some s, Some e]) = Some [Some s, Some s]"
  by (simp add: normalize_tw_def)

lemma normalized_window_at:
  assumes "solver_name = ''pyomo'' \<or> solver_name = ''ortools''"
    and "i < n_nodes_from_matrix m" and "i < length tws"
  shows "arr_node_time_windows
           (normalize_optional_arrays_for_solver solver_name (Some m) demands (Some tws) nst)
         = Some ws \<Longrightarrow> ws ! i = normalize_tw (tws ! i)"
  using assms
  by (auto simp: normalize_optional_arrays_for_solver_def Let_def nth_append)

text \<open>
  C4 (as amended).  A time window whose end is strictly less than its start is not
  swapped: its end is raised to its start and the provided end is dropped.  The
  dispatcher's array alignment (for the engines it normalizes, with a matrix of at least one
  node) turns \<open>[s, e]\<close> into \<open>[s, s]\<close>; the Solomon parser gives a node other than the depot
  whose deciding row has \<open>due < ready\<close> the window \<open>[60 * ready, 60 * ready]\<close>.
\<close>

theorem inverted_window_is_clamped:
  "((solver_name = ''pyomo'' \<or> solver_name = ''ortools'') \<and> k < n_nodes_from_matrix m
      \<and> k < length tws \<and> tws ! k = Some [Some s, Some e] \<and> e < s
      \<longrightarrow> (\<exists>ws. arr_node_time_windows
                  (normalize_optional_arrays_for_solver solver_name (Some m) demands
                     (Some tws) nst) = Some ws
               \<and> ws ! k = Some [Some s, Some s]))
   \<and> (load_solomon_txt (Some ls) = Inr inst \<and> i < length (si_waypoints inst)
      \<and> last_row_with_id (parse_rows ls) i = Some r \<and> row_due r < row_ready r
      \<and> int i \<noteq> si_depot_index inst
      \<longrightarrow> wp_time_window (si_waypoints inst ! i) = [row_ready r * 60, row_ready r * 60])"
proof (intro conjI impI)
  assume a: "(solver_name = ''pyomo'' \<or> solver_name = ''ortools'') \<and> k < n_nodes_from_matrix m
      \<and> k < length tws \<and> tws ! k = Some [Some s, Some e] \<and> e < s"
  then obtain ws where ws: "arr_node_time_windows
      (normalize_optional_arrays_for_solver solver_name (Some m) demands (Some tws) nst) = Some ws"
    by (auto simp: normalize_optional_arrays_for_solver_def Let_def)
  from normalized_window_at [OF _ _ _ ws, of k] a
  have "ws ! k = normalize_tw (Some [Some s, Some e])" by auto
  with a ws normalize_tw_inverted [of e s]
  show "\<exists>ws. arr_node_time_windows
                  (normalize_optional_arrays_for_solver solver_name (Some m) demands
                     (Some tws) nst) = Some ws
               \<and> ws ! k = Some [Some s, Some s]"
    by auto
next
  assume b: "load_solomon_txt (Some ls) = Inr inst \<and> i < length (si_waypoints inst)
      \<and> last_row_with_id (parse_rows ls) i = Some r \<and> row_due r < row_ready r
      \<and> int i \<noteq> si_depot_index inst"
  then have "wp_time_window (si_waypoints inst ! i)
      = [row_ready r * 60, max (row_ready r) (row_due r) * 60]"
    using solomon_waypoint_at(2) [of ls inst i r] by blast
  with b show "wp_time_window (si_waypoints inst ! i) = [row_ready r * 60, row_ready r * 60]"
    by (simp add: max_def)
qed

theorem inverted_window_is_clamped_witness:
  "(\<exists>ws. arr_node_time_windows
           (normalize_optional_arrays_for_solver ''pyomo''
              (Some \<lparr>distances = [[0]], durations = None\<rparr>) None
              (Some [Some [Some 10, Some 5]]) None) = Some ws
         \<and> ws ! 0 = Some [Some 10, Some 10])
   \<and> wp_time_window
         (si_waypoints
            (projr (load_solomon_txt
               (Some [[0, 35, 35, 0, 0, 230, 0], [1, 41, 49, 10, 161, 171, 10],
                      [2, 1, 2, 3, 50, 10, 5]]))) ! 2)
       = [50 * 60, 50 * 60]"
proof -
  let ?L = "[[0, 35, 35, 0, 0, 230, 0], [1, 41, 49, 10, 161, 171, 10],
             [2, 1, 2, 3, 50, 10, 5 :: real]]"
  let ?inst = "projr (load_solomon_txt (Some ?L))"
  let ?r = "\<lparr>row_id = 2, row_x = 1, row_y = 2, row_demand = 3, row_ready = 50,
             row_due = 10, row_service = 5\<rparr>"
  let ?m = "\<lparr>distances = [[0]], durations = None\<rparr>"
  have h1: "load_solomon_txt (Some ?L) = Inr ?inst" by code_simp
  have h2: "2 < length (si_waypoints ?inst)" by code_simp
  have h3: "last_row_with_id (parse_rows ?L) 2 = Some ?r" by code_simp
  have h4: "int 2 \<noteq> si_depot_index ?inst" by code_simp
  have h5: "row_due ?r < row_ready ?r" by simp
  have d: "(''pyomo'' = ''pyomo'' \<or> ''pyomo'' = ''ortools'') \<and> 0 < n_nodes_from_matrix ?m
      \<and> 0 < length [Some [Some (10::int), Some 5]]
      \<and> [Some [Some (10::int), Some 5]] ! 0 = Some [Some 10, Some 5] \<and> (5::int) < 10"
    by (simp add: n_nodes_from_matrix_def)
  from inverted_window_is_clamped
    [where solver_name = "''pyomo''" and k = 0 and m = ?m
       and tws = "[Some [Some 10, Some 5]]" and s = 10 and e = 5 and demands = None
       and nst = None and ls = ?L and inst = ?inst and i = 2 and r = ?r]
    d h1 h2 h3 h4 h5
  show ?thesis by simp
qed

text \<open>
  The claim as written asks for the swapped pair: \<open>[5, 10]\<close> for the request window
  \<open>[10, 5]\<close>, and \<open>[600, 3000]\<close> for the Solomon row with ready 50 and due 10.
\<close>

theorem swapped_window_counterexample:
  "arr_node_time_windows
     (normalize_optional_arrays_for_solver ''pyomo''
        (Some \<lparr>distances = [[0]], durations = None\<rparr>) None
        (Some [Some [Some 10, Some 5]]) None)
     = Some [Some [Some 10, Some 10]]
   \<and> map wp_time_window
         (si_waypoints
            (projr (load_solomon_txt
               (Some [[0, 35, 35, 0, 0, 230, 0], [1, 41, 49, 10, 161, 171, 10],
                      [2, 1, 2, 3, 50, 10, 5]]))))
       = [[0, 13800], [9660, 10260], [3000, 3000]]"
  by code_simp

lemma parse_rows_mem:
  "r \<in> set (parse_rows ls) \<Longrightarrow>
   \<exists>nums \<in> set ls. 7 \<le> length nums \<and> row_id r = py_int_of_float (nums ! 0)
      \<and> row_ready r = py_int_of_float (nums ! 4) \<and> row_due r = py_int_of_float (nums ! 5)
      \<and> row_service r = py_int_of_float (nums ! 6)"
proof -
  assume "r \<in> set (parse_rows ls)"
  then obtain nums where n: "nums \<in> set ls" "parse_row nums = Some r"
    by (auto simp: parse_rows_def List.map_filter_def)
  from n(2) have "7 \<le> length nums \<and> row_id r = py_int_of_float (nums ! 0)
      \<and> row_ready r = py_int_of_float (nums ! 4) \<and> row_due r = py_int_of_float (nums ! 5)
      \<and> row_service r = py_int_of_float (nums ! 6)"
    by (auto simp: parse_row_def split: if_splits)
  with n(1) show ?thesis by blast
qed

lemma last_row_with_id_mem:
  "last_row_with_id rows i = Some r \<Longrightarrow> r \<in> set rows \<and> row_id r = int i"
proof -
  assume "last_row_with_id rows i = Some r"
  then have f: "find (\<lambda>r. row_id r = int i) (rev rows) = Some r"
    by (simp add: last_row_with_id_def)
  then obtain k where "k < length (rev rows)" "row_id (rev rows ! k) = int i" "r = rev rows ! k"
    by (auto simp: find_Some_iff)
  then have "r \<in> set (rev rows)" "row_id r = int i"
    using nth_mem by blast+
  then show ?thesis by simp
qed

text \<open>
  C8 (as amended).  For a node whose id has a row in the file (the last such row decides),
  the emitted \<open>service_time\<close> is the row's service value, truncated to an integer, times 60;
  and when the node is not the depot and the row has \<open>ready \<le> due\<close>, the emitted
  \<open>time_window\<close> is \<open>[60 * ready, 60 * due]\<close> of the truncated values.  All are integers.
\<close>

theorem solomon_minutes_to_seconds:
  assumes "load_solomon_txt (Some ls) = Inr inst"
    and "i < length (si_waypoints inst)"
    and "last_row_with_id (parse_rows ls) i = Some r"
  shows "(\<exists>nums \<in> set ls. 7 \<le> length nums \<and> py_int_of_float (nums ! 0) = int i
            \<and> row_ready r = py_int_of_float (nums ! 4)
            \<and> row_due r = py_int_of_float (nums ! 5)
            \<and> row_service r = py_int_of_float (nums ! 6))
       \<and> wp_service_time (si_waypoints inst ! i) = row_service r * 60
       \<and> (int i \<noteq> si_depot_index inst \<and> row_ready r \<le> row_due r
            \<longrightarrow> wp_time_window (si_waypoints inst ! i) = [row_ready r * 60, row_due r * 60])"
proof (intro conjI impI)
  from last_row_with_id_mem [OF assms(3)] parse_rows_mem [of r ls]
  show "\<exists>nums \<in> set ls. 7 \<le> length nums \<and> py_int_of_float (nums ! 0) = int i
            \<and> row_ready r = py_int_of_float (nums ! 4)
            \<and> row_due r = py_int_of_float (nums ! 5)
            \<and> row_service r = py_int_of_float (nums ! 6)"
    by auto
  show "wp_service_time (si_waypoints inst ! i) = row_service r * 60"
    using solomon_waypoint_at(1) [OF assms] .
next
  assume a: "int i \<noteq> si_depot_index inst \<and> row_ready r \<le> row_due r"
  then have "wp_time_window (si_waypoints inst ! i)
      = [row_ready r * 60, max (row_ready r) (row_due r) * 60]"
    using solomon_waypoint_at(2) [OF assms] by blast
  with a show "wp_time_window (si_waypoints inst ! i) = [row_ready r * 60, row_due r * 60]"
    by (simp add: max_def)
qed

theorem solomon_minutes_to_seconds_witness:
  "wp_service_time
     (si_waypoints
        (projr (load_solomon_txt
           (Some [[0, 35, 35, 0, 0, 230, 0], [1, 41, 49, 10, 161, 171, 10]]))) ! 1)
     = 10 * 60
   \<and> wp_time_window
     (si_waypoints
        (projr (load_solomon_txt
           (Some [[0, 35, 35, 0, 0, 230, 0], [1, 41, 49, 10, 161, 171, 10]]))) ! 1)
     = [161 * 60, 171 * 60]"
proof -
  let ?L = "[[0, 35, 35, 0, 0, 230, 0], [1, 41, 49, 10, 161, 171, 10 :: real]]"
  let ?inst = "projr (load_solomon_txt (Some ?L))"
  let ?r = "\<lparr>row_id = 1, row_x = 41, row_y = 49, row_demand = 10, row_ready = 161,
             row_due = 171, row_service = 10\<rparr>"
  have h1: "load_solomon_txt (Some ?L) = Inr ?inst" by code_simp
  have h2: "1 < length (si_waypoints ?inst)" by code_simp
  have h3: "last_row_with_id (parse_rows ?L) 1 = Some ?r" by code_simp
  have h4: "int 1 \<noteq> si_depot_index ?inst" by code_simp
  from solomon_minutes_to_seconds [OF h1 h2 h3] h4
  show ?thesis by simp
qed

text \<open>
  The claim as written covers every waypoint.  The depot's window is widened instead: a
  depot row with ready 5 and due 100, next to a customer with due 200, is emitted with the
  window \<open>[0, 12000]\<close>, not \<open>[300, 6000]\<close>.
\<close>

theorem solomon_depot_window_counterexample:
  "map wp_time_window
     (si_waypoints
        (projr (load_solomon_txt
           (Some [[0, 0, 0, 0, 5, 100, 0], [1, 3, 4, 10, 10, 200, 10]]))))
     = [[0, 12000], [600, 12000]]
   \<and> [5 * 60, 100 * 60] \<noteq> [0, 12000 :: int]"
  by code_simp

section \<open>services/metrics.py: the metrics enricher\<close>

text \<open>
  Of class \<open>Vehicle\<close> the fields the embedded functions read are kept.  \<open>cost_per_km\<close> is
  not a declared field: \<open>getattr(v, "cost_per_km", None)\<close> probes for it, and
  \<^term>\<open>None\<close> stands for its absence.  A route's metadata dict is an association list from
  keys to numbers.
\<close>

record vehicle =
  v_id :: string
  v_capacity :: "int list option"
  v_time_window :: "int list option"
  v_emissions_per_km :: "real option"
  v_cost_per_km :: "real option"

record route =
  vehicle_id :: string
  waypoint_ids :: "string list"
  total_distance :: "real option"
  total_duration :: "int option"
  emissions :: "real option"
  metadata :: "(string \<times> real) list option"

record routes =
  rs_status :: string
  rs_message :: "string option"
  rs_routes :: "route list"

datatype py_error = ValueError | IndexError | TypeError | AttributeError

definition py_index :: "'a list \<Rightarrow> int \<Rightarrow> 'a option" where
  \<comment> \<open>\<open>xs[i]\<close>; an index from \<open>-len(xs)\<close> to \<open>-1\<close> counts from the end, and \<^term>\<open>None\<close>
      stands for \<open>IndexError\<close>.\<close>
  "py_index xs i =
     (if 0 \<le> i \<and> i < int (length xs) then Some (xs ! nat i)
      else if i < 0 \<and> - int (length xs) \<le> i then Some (xs ! nat (int (length xs) + i))
      else None)"

definition lookup2 :: "'a list list \<Rightarrow> int \<Rightarrow> int \<Rightarrow> 'a option" where
  \<comment> \<open>\<open>table[a][b]\<close>\<close>
  "lookup2 table a b =
     (case py_index table a of None \<Rightarrow> None | Some row \<Rightarrow> py_index row b)"

fun route_totals ::
  "matrix_result \<Rightarrow> int list \<Rightarrow> real \<Rightarrow> real option \<Rightarrow> py_error + (real \<times> real option)" where
  \<comment> \<open>the loop \<open>for i in range(len(idxs) - 1)\<close> with its two accumulators\<close>
  "route_totals m (a # b # rest) dsum tsum =
     (case lookup2 (distances m) a b of
        None \<Rightarrow> Inl IndexError
      | Some d \<Rightarrow>
          (case tsum of
             None \<Rightarrow> route_totals m (b # rest) (dsum + d) None
           | Some t \<Rightarrow>
               (case durations m of
                  None \<Rightarrow> Inl TypeError
                | Some table \<Rightarrow>
                    (case lookup2 table a b of
                       None \<Rightarrow> Inl IndexError
                     | Some u \<Rightarrow> route_totals m (b # rest) (dsum + d) (Some (t + u))))))"
| "route_totals m idxs dsum tsum = Inr (dsum, tsum)"

definition enrich_route ::
  "(string \<Rightarrow> int option) \<Rightarrow> matrix_result \<Rightarrow> vehicle list \<Rightarrow> route \<Rightarrow> py_error + route" where
  \<comment> \<open>the body of \<open>for r in routes.routes\<close>; \<open>int_of_str\<close> is \<open>int(x)\<close> on a string, with
      \<open>None\<close> for \<open>ValueError\<close>.\<close>
  "enrich_route int_of_str m fleet r =
     (case those (map int_of_str (waypoint_ids r)) of
        None \<Rightarrow> Inl ValueError
      | Some idxs \<Rightarrow>
          (case route_totals m idxs 0 (if durations m \<noteq> None then Some 0 else None) of
             Inl e \<Rightarrow> Inl e
           | Inr (dsum, tsum) \<Rightarrow>
               (let r1 = r\<lparr>total_distance := Some dsum,
                           total_duration := map_option py_int_of_float tsum\<rparr>
                in case find (\<lambda>v. v_id v = vehicle_id r) fleet of
                     None \<Rightarrow> Inr r1
                   | Some v \<Rightarrow>
                       (let km = dsum;
                            md0 = (case metadata r1 of
                                     None \<Rightarrow> []
                                   | Some md \<Rightarrow> if md = [] then [] else md);
                            md1 = (case v_cost_per_km v of
                                     None \<Rightarrow> md0
                                   | Some c \<Rightarrow> AList.update ''cost'' (km * c) md0);
                            r2 = r1\<lparr>metadata := Some md1\<rparr>
                        in case v_emissions_per_km v of
                             None \<Rightarrow> Inr r2
                           | Some f \<Rightarrow> Inr (r2\<lparr>emissions := Some (km * f)\<rparr>)))))"

fun enrich_all ::
  "(string \<Rightarrow> int option) \<Rightarrow> matrix_result \<Rightarrow> vehicle list \<Rightarrow> route list
     \<Rightarrow> py_error + route list" where
  "enrich_all int_of_str m fleet [] = Inr []"
| "enrich_all int_of_str m fleet (r # rs) =
     (case enrich_route int_of_str m fleet r of
        Inl e \<Rightarrow> Inl e
      | Inr r' \<Rightarrow>
          (case enrich_all int_of_str m fleet rs of
             Inl e \<Rightarrow> Inl e
           | Inr rs' \<Rightarrow> Inr (r' # rs')))"

definition enrich_routes_with_metrics ::
  "(string \<Rightarrow> int option) \<Rightarrow> routes \<Rightarrow> matrix_result \<Rightarrow> vehicle list \<Rightarrow> py_error + routes" where
  "enrich_routes_with_metrics int_of_str rts m fleet =
     (case enrich_all int_of_str m fleet (rs_routes rts) of
        Inl e \<Rightarrow> Inl e
      | Inr rs' \<Rightarrow> Inr (rts\<lparr>rs_routes := rs'\<rparr>))"

text \<open>
  The totals as the specification words them: the sum of \<open>table[a][b]\<close> over the
  consecutive pairs \<open>(a, b)\<close> of the node list, defined when every entry exists.
\<close>

fun path_sum :: "(int \<Rightarrow> int \<Rightarrow> real option) \<Rightarrow> int list \<Rightarrow> real option" where
  "path_sum f (a # b # rest) =
     (case f a b of
        None \<Rightarrow> None
      | Some d \<Rightarrow> map_option (\<lambda>s. d + s) (path_sum f (b # rest)))"
| "path_sum f idxs = Some 0"

lemma route_totals_no_durations:
  "route_totals m idxs dsum None =
     (case path_sum (lookup2 (distances m)) idxs of
        None \<Rightarrow> Inl IndexError
      | Some d \<Rightarrow> Inr (dsum + d, None))"
proof (induction "lookup2 (distances m)" idxs arbitrary: dsum rule: path_sum.induct)
  case (1 a b rest)
  then show ?case by (auto split: option.splits)
qed simp_all

lemma route_totals_durations:
  "durations m = Some table \<Longrightarrow>
   route_totals m idxs dsum (Some t) =
     (case (path_sum (lookup2 (distances m)) idxs, path_sum (lookup2 table) idxs) of
        (Some d, Some u) \<Rightarrow> Inr (dsum + d, Some (t + u))
      | _ \<Rightarrow> Inl IndexError)"
proof (induction "lookup2 (distances m)" idxs arbitrary: dsum t rule: path_sum.induct)
  case (1 a b rest)
  then show ?case by (auto split: option.splits)
qed simp_all

lemma those_Some_map: "those xs = Some ys \<Longrightarrow> xs = map Some ys"
  by (induction xs arbitrary: ys) (auto split: option.splits)

definition matching_vehicle :: "vehicle list \<Rightarrow> route \<Rightarrow> vehicle option" where
  \<comment> \<open>\<open>next((v for v in fleet if v.id == r.vehicle_id), None)\<close>\<close>
  "matching_vehicle fleet r = find (\<lambda>v. v_id v = vehicle_id r) fleet"

definition metadata_or_empty :: "route \<Rightarrow> (string \<times> real) list" where
  \<comment> \<open>\<open>r.metadata or {}\<close>\<close>
  "metadata_or_empty r = (case metadata r of None \<Rightarrow> [] | Some md \<Rightarrow> md)"

lemma enrich_route_result:
  assumes "enrich_route f m fleet r = Inr r'"
  shows "\<exists>idxs d.
           map f (waypoint_ids r) = map Some idxs
         \<and> path_sum (lookup2 (distances m)) idxs = Some d
         \<and> total_distance r' = Some d
         \<and> (case durations m of
               None \<Rightarrow> total_duration r' = None
             | Some table \<Rightarrow>
                 \<exists>t. path_sum (lookup2 table) idxs = Some t
                    \<and> total_duration r' = Some (py_int_of_float t))
         \<and> (case matching_vehicle fleet r of
               None \<Rightarrow> emissions r' = emissions r \<and> metadata r' = metadata r
             | Some v \<Rightarrow>
                 emissions r' = (case v_emissions_per_km v of
                                   None \<Rightarrow> emissions r
                                 | Some e \<Rightarrow> Some (d * e))
               \<and> metadata r' = Some (case v_cost_per_km v of
                                        None \<Rightarrow> metadata_or_empty r
                                      | Some c \<Rightarrow> AList.update ''cost'' (d * c)
                                                   (metadata_or_empty r)))
         \<and> vehicle_id r' = vehicle_id r \<and> waypoint_ids r' = waypoint_ids r"
proof -
  from assms obtain idxs where ids: "those (map f (waypoint_ids r)) = Some idxs"
    by (auto simp: enrich_route_def split: option.splits)
  have mapped: "map f (waypoint_ids r) = map Some idxs"
    using those_Some_map [OF ids] .
  from assms ids obtain d tsum where
    tot: "route_totals m idxs 0 (if durations m \<noteq> None then Some 0 else None) = Inr (d, tsum)"
    by (auto simp: enrich_route_def split: sum.splits)
  have ps: "path_sum (lookup2 (distances m)) idxs = Some d"
    using tot
    by (cases "durations m")
       (auto simp: route_totals_no_durations route_totals_durations split: option.splits)
  have du: "(case durations m of
               None \<Rightarrow> tsum = None
             | Some table \<Rightarrow> \<exists>t. path_sum (lookup2 table) idxs = Some t \<and> tsum = Some t)"
  proof (cases "durations m")
    case None
    with tot show ?thesis
      by (auto simp: route_totals_no_durations split: option.splits)
  next
    case (Some table)
    with tot obtain u where "path_sum (lookup2 table) idxs = Some u" "tsum = Some u"
      by (auto simp: route_totals_durations split: option.splits)
    with Some show ?thesis by simp
  qed
  have md: "(case metadata r of None \<Rightarrow> [] | Some md \<Rightarrow> if md = [] then [] else md)
        = metadata_or_empty r"
    by (simp add: metadata_or_empty_def split: option.splits)
  have r': "r' = (let r1 = r\<lparr>total_distance := Some d,
                           total_duration := map_option py_int_of_float tsum\<rparr>
                in case matching_vehicle fleet r of
                     None \<Rightarrow> r1
                   | Some v \<Rightarrow>
                       (let md1 = (case v_cost_per_km v of
                                     None \<Rightarrow> metadata_or_empty r
                                   | Some c \<Rightarrow> AList.update ''cost'' (d * c)
                                                (metadata_or_empty r));
                            r2 = r1\<lparr>metadata := Some md1\<rparr>
                        in case v_emissions_per_km v of
                             None \<Rightarrow> r2
                           | Some e \<Rightarrow> r2\<lparr>emissions := Some (d * e)\<rparr>))"
    using assms ids tot
    by (auto simp: enrich_route_def matching_vehicle_def Let_def md split: option.splits)
  show ?thesis
    apply (rule exI [of _ idxs], rule exI [of _ d])
    using mapped ps du
    by (auto simp: r' Let_def split: option.splits)
qed

lemma enrich_route_succeeds:
  assumes "those (map f (waypoint_ids r)) = Some idxs"
    and "path_sum (lookup2 (distances m)) idxs \<noteq> None"
    and "\<And>table. durations m = Some table \<Longrightarrow> path_sum (lookup2 table) idxs \<noteq> None"
  shows "\<exists>r'. enrich_route f m fleet r = Inr r'"
proof (cases "durations m")
  case None
  with assms show ?thesis
    by (auto simp: enrich_route_def route_totals_no_durations Let_def split: option.splits)
next
  case (Some table)
  with assms(2) assms(3) [OF Some] assms(1) show ?thesis
    by (auto simp: enrich_route_def route_totals_durations Let_def split: option.splits)
qed

lemma enrich_all_nth:
  "enrich_all f m fleet rs = Inr rs' \<Longrightarrow>
   length rs' = length rs \<and> (\<forall>k < length rs. enrich_route f m fleet (rs ! k) = Inr (rs' ! k))"
proof (induction rs arbitrary: rs')
  case Nil
  then show ?case by simp
next
  case (Cons r rs)
  from Cons.prems obtain q qs where q: "enrich_route f m fleet r = Inr q"
    and qs: "enrich_all f m fleet rs = Inr qs" and rs': "rs' = q # qs"
    by (auto split: sum.splits)
  from Cons.IH [OF qs] q show ?case
    by (auto simp: rs' nth_Cons split: nat.splits)
qed

text \<open>
  C2 (as amended).  When the enricher returns, it returns as many routes, with status and
  message kept, and for each route: the waypoint ids all convert to node indices;
  \<open>total_distance\<close> is the sum of \<open>distances[a][b]\<close> over the consecutive pairs of those
  indices; \<open>total_duration\<close> is the sum of \<open>durations[a][b]\<close> over the same pairs converted
  to an integer (truncated) when the matrix has a durations table, and null otherwise;
  \<open>emissions\<close> is \<open>total_distance\<close> times the per-km factor of the first vehicle whose id
  is the route's, when there is such a vehicle and it has a factor, and is kept
  otherwise; \<open>vehicle_id\<close> and \<open>waypoint_ids\<close> are kept.  \<open>metadata\<close> is kept only when no
  vehicle matches: with a matching vehicle a null metadata becomes the empty map, and a
  \<open>cost\<close> entry is written when the vehicle carries a \<open>cost_per_km\<close>.
\<close>

theorem enricher_recomputes_totals:
  assumes "enrich_routes_with_metrics f rts m fleet = Inr rts'"
    and "k < length (rs_routes rts)"
  shows "length (rs_routes rts') = length (rs_routes rts)
       \<and> rs_status rts' = rs_status rts \<and> rs_message rts' = rs_message rts
       \<and> (\<exists>idxs d.
             map f (waypoint_ids (rs_routes rts ! k)) = map Some idxs
           \<and> path_sum (lookup2 (distances m)) idxs = Some d
           \<and> total_distance (rs_routes rts' ! k) = Some d
           \<and> (case durations m of
                 None \<Rightarrow> total_duration (rs_routes rts' ! k) = None
               | Some table \<Rightarrow>
                   \<exists>t. path_sum (lookup2 table) idxs = Some t
                      \<and> total_duration (rs_routes rts' ! k) = Some (py_int_of_float t))
           \<and> (case matching_vehicle fleet (rs_routes rts ! k) of
                 None \<Rightarrow> emissions (rs_routes rts' ! k) = emissions (rs_routes rts ! k)
                        \<and> metadata (rs_routes rts' ! k) = metadata (rs_routes rts ! k)
               | Some v \<Rightarrow>
                   emissions (rs_routes rts' ! k)
                     = (case v_emissions_per_km v of
                          None \<Rightarrow> emissions (rs_routes rts ! k)
                        | Some e \<Rightarrow> Some (d * e))
                 \<and> metadata (rs_routes rts' ! k)
                     = Some (case v_cost_per_km v of
                               None \<Rightarrow> metadata_or_empty (rs_routes rts ! k)
                             | Some c \<Rightarrow> AList.update ''cost'' (d * c)
                                          (metadata_or_empty (rs_routes rts ! k))))
           \<and> vehicle_id (rs_routes rts' ! k) = vehicle_id (rs_routes rts ! k)
           \<and> waypoint_ids (rs_routes rts' ! k) = waypoint_ids (rs_routes rts ! k))"
proof -
  from assms(1) obtain rs' where all: "enrich_all f m fleet (rs_routes rts) = Inr rs'"
    and rts': "rts' = rts\<lparr>rs_routes := rs'\<rparr>"
    by (auto simp: enrich_routes_with_metrics_def split: sum.splits)
  from enrich_all_nth [OF all] assms(2)
  have len: "length rs' = length (rs_routes rts)"
    and one: "enrich_route f m fleet (rs_routes rts ! k) = Inr (rs' ! k)"
    by auto
  have e: "rs_routes rts' = rs'" "rs_status rts' = rs_status rts"
    "rs_message rts' = rs_message rts"
    by (simp_all add: rts')
  from enrich_route_result [OF one] len show ?thesis
    unfolding e by simp
qed

theorem enricher_recomputes_totals_witness:
  "total_distance
     (rs_routes
        (projr (enrich_routes_with_metrics
           (\<lambda>s. if s = ''0'' then Some 0 else if s = ''1'' then Some 1
                 else if s = ''2'' then Some 2 else None)
           \<lparr>rs_status = ''success'', rs_message = None,
            rs_routes = [\<lparr>vehicle_id = ''veh-1'', waypoint_ids = [''0'', ''1'', ''2'', ''0''],
                          total_distance = None, total_duration = None, emissions = None,
                          metadata = None\<rparr>]\<rparr>
           \<lparr>distances = [[0, 5, 7], [5, 0, 3], [7, 3, 0]],
            durations = Some [[0, 300, 420], [300, 0, 180], [420, 180, 0]]\<rparr>
           [\<lparr>v_id = ''veh-1'', v_capacity = Some [999], v_time_window = None,
             v_emissions_per_km = Some (1 / 2), v_cost_per_km = None\<rparr>])) ! 0)
   = path_sum (lookup2 [[0, 5, 7], [5, 0, 3], [7, 3, 0]]) [0, 1, 2, 0]
   \<and> path_sum (lookup2 [[0, 5, 7], [5, 0, 3], [7, 3, 0]]) [0, 1, 2, 0] = Some 15"
proof -
  let ?f = "\<lambda>s. if s = ''0'' then Some 0 else if s = ''1'' then Some 1
                 else if s = ''2'' then Some (2::int) else None"
  let ?rts = "\<lparr>rs_status = ''success'', rs_message = None,
            rs_routes = [\<lparr>vehicle_id = ''veh-1'', waypoint_ids = [''0'', ''1'', ''2'', ''0''],
                          total_distance = None, total_duration = None, emissions = None,
                          metadata = None\<rparr>]\<rparr>"
  let ?m = "\<lparr>distances = [[0, 5, 7], [5, 0, 3], [7, 3, 0]],
            durations = Some [[0, 300, 420], [300, 0, 180], [420, 180, 0]]\<rparr>"
  let ?fleet = "[\<lparr>v_id = ''veh-1'', v_capacity = Some [999], v_time_window = None,
             v_emissions_per_km = Some (1 / 2), v_cost_per_km = None\<rparr>]"
  let ?out = "projr (enrich_routes_with_metrics ?f ?rts ?m ?fleet)"
  have h1: "enrich_routes_with_metrics ?f ?rts ?m ?fleet = Inr ?out" by code_simp
  have h2: "0 < length (rs_routes ?rts)" by simp
  from enricher_recomputes_totals [OF h1 h2]
  obtain idxs d where a: "map ?f (waypoint_ids (rs_routes ?rts ! 0)) = map Some idxs"
    and b: "path_sum (lookup2 (distances ?m)) idxs = Some d"
    and c: "total_distance (rs_routes ?out ! 0) = Some d"
    by blast
  from a have "map Some idxs = map Some [0, 1, 2, 0]" by simp
  then have "idxs = [0, 1, 2, 0]" by (simp add: map_eq_Cons_conv)
  with b c have "total_distance (rs_routes ?out ! 0)
      = path_sum (lookup2 [[0, 5, 7], [5, 0, 3], [7, 3, 0]]) [0, 1, 2, 0]"
    by simp
  moreover have "path_sum (lookup2 [[0, 5, 7], [5, 0, 3], [7, 3, 0]]) [0, 1, 2, 0] = Some 15"
    by code_simp
  ultimately show ?thesis by blast
qed

text \<open>
  The claim as written leaves every other field untouched.  A route whose metadata is
  null, served by a vehicle of the fleet, comes back with the empty map as metadata.
\<close>

theorem metadata_untouched_counterexample:
  "map metadata
     (rs_routes
        (projr (enrich_routes_with_metrics
           (\<lambda>s. if s = ''0'' then Some 0 else if s = ''1'' then Some 1 else None)
           \<lparr>rs_status = ''success'', rs_message = None,
            rs_routes = [\<lparr>vehicle_id = ''veh-1'', waypoint_ids = [''0'', ''1'', ''0''],
                          total_distance = None, total_duration = None, emissions = None,
                          metadata = None\<rparr>]\<rparr>
           \<lparr>distances = [[0, 5], [5, 0]], durations = None\<rparr>
           [\<lparr>v_id = ''veh-1'', v_capacity = None, v_time_window = None,
             v_emissions_per_km = None, v_cost_per_km = None\<rparr>])))
   = [Some []]"
  by code_simp

section \<open>services/solvers/pyomo\_solver.py: validation before the model is built\<close>

text \<open>
  \<open>PyomoSolver.solve\<close> up to the end of its preflight checks.  Every \<open>SolverError\<close> it
  raises there is a constructor carrying the numbers its message prints; an exception
  Python itself raises (\<open>IndexError\<close>, \<open>TypeError\<close>) is \<open>PythonException\<close>.
\<close>

datatype solver_error =
    MatrixRequired
  | EmptyDistanceMatrix
  | FleetEmpty
  | DemandsLength
  | ServiceTimesLength
  | InfeasibleTimeWindow nat int int
  | InfeasibleDemand int int nat "int list"
  | InfeasibleLatest nat int int
  | NotSquare nat
  | DurationShape
  | PythonException

record preflight =
  pf_n :: nat
  pf_durations :: "int list list"
  pf_demands :: "int list"
  pf_service :: "int list"
  pf_big_t :: int
  pf_tw_bounds :: "(int \<times> int) list"
  pf_caps :: "int list"

fun big_t_items :: "int option list option list \<Rightarrow> solver_error + int list" where
  \<comment> \<open>the generator \<open>tw[1] for tw in node_time_windows if tw\<close>, consumed by \<open>max\<close>: a
      one-element window raises, and so does a \<open>None\<close> bound once it is compared.\<close>
  "big_t_items [] = Inr []"
| "big_t_items (tw # rest) =
     (case tw of
        None \<Rightarrow> big_t_items rest
      | Some [] \<Rightarrow> big_t_items rest
      | Some [a] \<Rightarrow> Inl PythonException
      | Some (a # b # others) \<Rightarrow>
          (case b of
             None \<Rightarrow> Inl PythonException
           | Some hi \<Rightarrow>
               (case big_t_items rest of
                  Inl e \<Rightarrow> Inl e
                | Inr his \<Rightarrow> Inr (hi # his))))"

definition tw_bound_at ::
  "int \<Rightarrow> int option list option list \<Rightarrow> nat \<Rightarrow> solver_error + (int \<times> int)" where
  \<comment> \<open>the body of the first \<open>for i in range(n)\<close>\<close>
  "tw_bound_at big_t tw i =
     (if length tw \<le> i then Inl PythonException
      else
        (case tw ! i of
           Some [a, b] \<Rightarrow>
             (case a of
                None \<Rightarrow> Inl PythonException
              | Some lo \<Rightarrow>
                  (case b of
                     None \<Rightarrow> Inl PythonException
                   | Some hi \<Rightarrow>
                       if hi < lo then Inl (InfeasibleTimeWindow i hi lo) else Inr (lo, hi)))
         | _ \<Rightarrow> Inr (0, big_t)))"

fun tw_bounds_loop ::
  "int \<Rightarrow> int option list option list \<Rightarrow> nat list \<Rightarrow> solver_error + (int \<times> int) list" where
  "tw_bounds_loop big_t tw [] = Inr []"
| "tw_bounds_loop big_t tw (i # rest) =
     (case tw_bound_at big_t tw i of
        Inl e \<Rightarrow> Inl e
      | Inr b \<Rightarrow>
          (case tw_bounds_loop big_t tw rest of
             Inl e \<Rightarrow> Inl e
           | Inr bs \<Rightarrow> Inr (b # bs)))"

fun reach_loop ::
  "int list list \<Rightarrow> int \<Rightarrow> (int \<times> int) list \<Rightarrow> nat list \<Rightarrow> solver_error + unit" where
  \<comment> \<open>the second \<open>for i in range(n)\<close>: the latest time against the travel from the depot\<close>
  "reach_loop durs depot_index bounds [] = Inr ()"
| "reach_loop durs depot_index bounds (i # rest) =
     (if int i = depot_index then reach_loop durs depot_index bounds rest
      else
        (case lookup2 durs depot_index (int i) of
           None \<Rightarrow> Inl PythonException
         | Some lb_arrival \<Rightarrow>
             if snd (bounds ! i) < lb_arrival
             then Inl (InfeasibleLatest i (snd (bounds ! i)) lb_arrival)
             else reach_loop durs depot_index bounds rest))"

definition vehicle_cap :: "vehicle \<Rightarrow> int" where
  \<comment> \<open>\<open>int(v.capacity[0] if v.capacity else 10**9)\<close>\<close>
  "vehicle_cap v = (case v_capacity v of None \<Rightarrow> 10 ^ 9 | Some [] \<Rightarrow> 10 ^ 9 | Some (c # cs) \<Rightarrow> c)"

definition pyomo_preflight ::
  "vehicle list \<Rightarrow> matrix_result option \<Rightarrow> int \<Rightarrow> int list option
     \<Rightarrow> int option list option list option \<Rightarrow> int list option \<Rightarrow> solver_error + preflight" where
  "pyomo_preflight fleet matrix depot_index demands node_time_windows node_service_times =
     (case matrix of
        None \<Rightarrow> Inl MatrixRequired
      | Some mx \<Rightarrow>
          (let n = length (distances mx) in
           if n = 0 then Inl EmptyDistanceMatrix
           else
             (let durs = map (map py_round)
                           (case durations mx of None \<Rightarrow> distances mx | Some t \<Rightarrow> t) in
              if length fleet = 0 then Inl FleetEmpty
              else
                (let d = (case demands of None \<Rightarrow> replicate n 0
                          | Some xs \<Rightarrow> if xs = [] then replicate n 0 else xs) in
                 if length d \<noteq> n then Inl DemandsLength
                 else
                   (let s = (case node_service_times of None \<Rightarrow> replicate n 0
                             | Some xs \<Rightarrow> if xs = [] then replicate n 0 else xs) in
                    if length s \<noteq> n then Inl ServiceTimesLength
                    else
                      (case big_t_items
                              (case node_time_windows of None \<Rightarrow> [] | Some tws \<Rightarrow> tws) of
                         Inl e \<Rightarrow> Inl e
                       | Inr his \<Rightarrow>
                           (let big_t = max 10000 (fold max his 10000);
                                tw = (case node_time_windows of
                                        None \<Rightarrow> replicate n None
                                      | Some tws \<Rightarrow> if tws = [] then replicate n None else tws)
                            in case tw_bounds_loop big_t tw [0..<n] of
                                 Inl e \<Rightarrow> Inl e
                               | Inr tw_bounds \<Rightarrow>
                                   (let caps = map vehicle_cap fleet;
                                        total_demand = sum_list d;
                                        total_capacity = sum_list (map (max 0) caps)
                                    in if total_capacity < total_demand
                                       then Inl (InfeasibleDemand total_demand total_capacity
                                                   (length fleet) caps)
                                       else
                                         (case reach_loop durs depot_index tw_bounds [0..<n] of
                                            Inl e \<Rightarrow> Inl e
                                          | Inr u \<Rightarrow>
                                              Inr \<lparr>pf_n = n, pf_durations = durs,
                                                   pf_demands = d, pf_service = s,
                                                   pf_big_t = big_t,
                                                   pf_tw_bounds = tw_bounds,
                                                   pf_caps = caps\<rparr>)))))))))"

text \<open>The quantities the claim speaks of, read off the inputs.\<close>

definition total_demand :: "int list option \<Rightarrow> int" where
  "total_demand demands = sum_list (case demands of None \<Rightarrow> [] | Some xs \<Rightarrow> xs)"

definition total_capacity :: "vehicle list \<Rightarrow> int" where
  "total_capacity fleet = sum_list (map (\<lambda>v. max 0 (vehicle_cap v)) fleet)"

definition travel_from_depot :: "matrix_result \<Rightarrow> int \<Rightarrow> nat \<Rightarrow> int option" where
  \<comment> \<open>the rounded duration (distance when there are no durations) from the depot to node \<open>i\<close>\<close>
  "travel_from_depot mx depot_index i =
     map_option py_round
       (lookup2 (case durations mx of None \<Rightarrow> distances mx | Some t \<Rightarrow> t) depot_index (int i))"

lemma demands_or_zeros_sum:
  "sum_list (case demands of None \<Rightarrow> replicate n 0
             | Some xs \<Rightarrow> if xs = [] then replicate n 0 else xs) = total_demand demands"
  by (simp add: total_demand_def sum_list_replicate split: option.splits)

lemma caps_sum: "sum_list (map (max 0) (map vehicle_cap fleet)) = total_capacity fleet"
  by (simp add: total_capacity_def comp_def)

lemma big_t_items_error: "big_t_items tws = Inl e \<Longrightarrow> e = PythonException"
  by (induction tws rule: big_t_items.induct) (auto split: option.splits sum.splits list.splits)

lemma tw_bound_at_error:
  "tw_bound_at big_t tw i = Inl e \<Longrightarrow>
   e = PythonException \<or> (\<exists>a b. e = InfeasibleTimeWindow i a b)"
  by (auto simp: tw_bound_at_def split: if_splits option.splits list.splits)

lemma tw_bounds_loop_error:
  "tw_bounds_loop big_t tw idxs = Inl e \<Longrightarrow>
   e = PythonException \<or> (\<exists>i a b. e = InfeasibleTimeWindow i a b)"
proof (induction idxs)
  case Nil
  then show ?case by simp
next
  case (Cons i idxs)
  then show ?case
    using tw_bound_at_error [of big_t tw i e] by (auto split: sum.splits)
qed

lemma tw_bounds_loop_nth:
  "tw_bounds_loop big_t tw idxs = Inr bs \<Longrightarrow>
   length bs = length idxs \<and> (\<forall>k < length idxs. tw_bound_at big_t tw (idxs ! k) = Inr (bs ! k))"
proof (induction idxs arbitrary: bs)
  case Nil
  then show ?case by simp
next
  case (Cons i idxs)
  from Cons.prems obtain b bs' where b: "tw_bound_at big_t tw i = Inr b"
    and bs': "tw_bounds_loop big_t tw idxs = Inr bs'" and bs: "bs = b # bs'"
    by (auto split: sum.splits)
  from Cons.IH [OF bs'] b show ?case
    by (auto simp: bs nth_Cons split: nat.splits)
qed

lemma tw_bound_at_given:
  "tw_bound_at big_t tw i = Inr b \<Longrightarrow> i < length tw \<Longrightarrow> tw ! i = Some [Some lo, Some hi] \<Longrightarrow>
   b = (lo, hi)"
  by (auto simp: tw_bound_at_def split: if_splits)

lemma reach_loop_ok:
  "reach_loop durs depot bounds idxs = Inr u \<Longrightarrow> i \<in> set idxs \<Longrightarrow> int i \<noteq> depot \<Longrightarrow>
   \<exists>lb. lookup2 durs depot (int i) = Some lb \<and> lb \<le> snd (bounds ! i)"
proof (induction idxs)
  case Nil
  then show ?case by simp
next
  case (Cons j idxs)
  then show ?case
    by (cases "int j = depot") (auto split: option.splits if_splits)
qed

lemma reach_loop_error:
  "reach_loop durs depot bounds idxs = Inl e \<Longrightarrow>
   e = PythonException
   \<or> (\<exists>i \<in> set idxs. \<exists>lb. int i \<noteq> depot \<and> lookup2 durs depot (int i) = Some lb
         \<and> snd (bounds ! i) < lb \<and> e = InfeasibleLatest i (snd (bounds ! i)) lb)"
proof (induction idxs)
  case Nil
  then show ?case by simp
next
  case (Cons j idxs)
  then show ?case
    by (cases "int j = depot") (auto split: option.splits if_splits)
qed

lemma lookup2_map_round:
  "lookup2 (map (map py_round) table) a b = map_option py_round (lookup2 table a b)"
  by (auto simp: lookup2_def py_index_def Let_def split: option.splits)

definition windows_or_none :: "nat \<Rightarrow> int option list option list option \<Rightarrow> int option list option list" where
  \<comment> \<open>\<open>node_time_windows or [None] * n\<close>\<close>
  "windows_or_none n node_time_windows =
     (case node_time_windows of
        None \<Rightarrow> replicate n None
      | Some tws \<Rightarrow> if tws = [] then replicate n None else tws)"

lemma pyomo_preflight_cases:
  assumes "pyomo_preflight fleet matrix depot demands ntw nst = res"
  obtains (early) e where "res = Inl e"
      "e = MatrixRequired \<or> e = EmptyDistanceMatrix \<or> e = FleetEmpty \<or> e = DemandsLength
       \<or> e = ServiceTimesLength \<or> e = PythonException
       \<or> (\<exists>i a b. e = InfeasibleTimeWindow i a b)"
  | (demand) "total_capacity fleet < total_demand demands"
      "res = Inl (InfeasibleDemand (total_demand demands) (total_capacity fleet)
                    (length fleet) (map vehicle_cap fleet))"
  | (reach) mx big_t bounds where "matrix = Some mx"
      "\<not> total_capacity fleet < total_demand demands"
      "tw_bounds_loop big_t (windows_or_none (length (distances mx)) ntw)
         [0..<length (distances mx)] = Inr bounds"
      "res = (case reach_loop
                     (map (map py_round)
                        (case durations mx of None \<Rightarrow> distances mx | Some t \<Rightarrow> t))
                     depot bounds [0..<length (distances mx)] of
                Inl e \<Rightarrow> Inl e
              | Inr u \<Rightarrow> Inr \<lparr>pf_n = length (distances mx),
                   pf_durations = map (map py_round)
                        (case durations mx of None \<Rightarrow> distances mx | Some t \<Rightarrow> t),
                   pf_demands = (case demands of None \<Rightarrow> replicate (length (distances mx)) 0
                          | Some xs \<Rightarrow> if xs = [] then replicate (length (distances mx)) 0 else xs),
                   pf_service = (case nst of None \<Rightarrow> replicate (length (distances mx)) 0
                          | Some xs \<Rightarrow> if xs = [] then replicate (length (distances mx)) 0 else xs),
                   pf_big_t = big_t, pf_tw_bounds = bounds,
                   pf_caps = map vehicle_cap fleet\<rparr>)"
proof (cases matrix)
  case None
  with assms have "res = Inl MatrixRequired" by (simp add: pyomo_preflight_def)
  then show ?thesis using early by blast
next
  case (Some mx)
  let ?n = "length (distances mx)"
  let ?d = "case demands of None \<Rightarrow> replicate ?n 0
            | Some xs \<Rightarrow> if xs = [] then replicate ?n 0 else xs"
  let ?s = "case nst of None \<Rightarrow> replicate ?n 0
            | Some xs \<Rightarrow> if xs = [] then replicate ?n 0 else xs"
  let ?items = "big_t_items (case ntw of None \<Rightarrow> [] | Some tws \<Rightarrow> tws)"
  show ?thesis
  proof (cases "?n = 0 \<or> length fleet = 0 \<or> length ?d \<noteq> ?n \<or> length ?s \<noteq> ?n")
    case True
    with assms Some have "res = Inl EmptyDistanceMatrix \<or> res = Inl FleetEmpty
        \<or> res = Inl DemandsLength \<or> res = Inl ServiceTimesLength"
      unfolding pyomo_preflight_def Let_def by (auto split: if_splits)
    then show ?thesis using early by blast
  next
    case False
    note shape = this
    show ?thesis
    proof (cases ?items)
      case (Inl e)
      with assms Some shape have "res = Inl e"
        unfolding pyomo_preflight_def Let_def by (simp split: if_splits)
      with big_t_items_error [OF Inl] show ?thesis using early by blast
    next
      case (Inr his)
      let ?B = "max 10000 (fold max his 10000)"
      show ?thesis
      proof (cases "tw_bounds_loop ?B (windows_or_none ?n ntw) [0..<?n]")
        case (Inl e)
        with assms Some shape Inr have "res = Inl e"
          unfolding pyomo_preflight_def Let_def windows_or_none_def
          by (simp split: if_splits)
        with tw_bounds_loop_error [OF Inl] show ?thesis using early by blast
      next
        case bounds: (Inr bounds)
        show ?thesis
        proof (cases "total_capacity fleet < total_demand demands")
          case True
          with assms Some shape Inr bounds
          have "res = Inl (InfeasibleDemand (total_demand demands) (total_capacity fleet)
                    (length fleet) (map vehicle_cap fleet))"
            unfolding pyomo_preflight_def Let_def windows_or_none_def demands_or_zeros_sum
              caps_sum
            by (simp split: if_splits)
          with True show ?thesis using demand by blast
        next
          case False
          with assms Some shape Inr bounds
          have "res = (case reach_loop
                     (map (map py_round)
                        (case durations mx of None \<Rightarrow> distances mx | Some t \<Rightarrow> t))
                     depot bounds [0..<?n] of
                Inl e \<Rightarrow> Inl e
              | Inr u \<Rightarrow> Inr \<lparr>pf_n = ?n,
                   pf_durations = map (map py_round)
                        (case durations mx of None \<Rightarrow> distances mx | Some t \<Rightarrow> t),
                   pf_demands = ?d, pf_service = ?s,
                   pf_big_t = ?B, pf_tw_bounds = bounds,
                   pf_caps = map vehicle_cap fleet\<rparr>)"
            unfolding pyomo_preflight_def Let_def windows_or_none_def demands_or_zeros_sum
              caps_sum
            by (simp split: if_splits)
          with Some False bounds show ?thesis using reach by blast
        qed
      qed
    qed
  qed
qed

lemma windows_or_none_given:
  "i < length tws \<Longrightarrow> windows_or_none n (Some tws) = tws"
  by (auto simp: windows_or_none_def)

definition validated_bounds ::
  "vehicle list \<Rightarrow> matrix_result \<Rightarrow> int list option \<Rightarrow> int option list option list option
     \<Rightarrow> int list option \<Rightarrow> (int \<times> int) list option" where
  \<comment> \<open>every validation that precedes the two feasibility checks passes, and these are
      the window bounds it leaves in \<open>tw_bounds\<close>\<close>
  "validated_bounds fleet mx demands node_time_windows node_service_times =
     (let n = length (distances mx) in
      if n = 0 \<or> fleet = []
         \<or> (case demands of None \<Rightarrow> False | Some xs \<Rightarrow> xs \<noteq> [] \<and> length xs \<noteq> n)
         \<or> (case node_service_times of None \<Rightarrow> False | Some xs \<Rightarrow> xs \<noteq> [] \<and> length xs \<noteq> n)
      then None
      else
        (case big_t_items (case node_time_windows of None \<Rightarrow> [] | Some tws \<Rightarrow> tws) of
           Inl e \<Rightarrow> None
         | Inr his \<Rightarrow>
             (case tw_bounds_loop (max 10000 (fold max his 10000))
                     (windows_or_none n node_time_windows) [0..<n] of
                Inl e \<Rightarrow> None
              | Inr tw_bounds \<Rightarrow> Some tw_bounds)))"

lemma validated_bounds_loop:
  "validated_bounds fleet mx demands ntw nst = Some bounds \<Longrightarrow>
   \<exists>big_t. tw_bounds_loop big_t (windows_or_none (length (distances mx)) ntw)
             [0..<length (distances mx)] = Inr bounds"
  unfolding validated_bounds_def Let_def
  by (auto split: if_splits sum.splits)

lemma pyomo_preflight_validated:
  assumes "validated_bounds fleet mx demands ntw nst = Some bounds"
  shows "total_capacity fleet < total_demand demands \<Longrightarrow>
         pyomo_preflight fleet (Some mx) depot demands ntw nst
           = Inl (InfeasibleDemand (total_demand demands) (total_capacity fleet)
                    (length fleet) (map vehicle_cap fleet))"
    and "\<not> total_capacity fleet < total_demand demands \<Longrightarrow>
         reach_loop
           (map (map py_round) (case durations mx of None \<Rightarrow> distances mx | Some t \<Rightarrow> t))
           depot bounds [0..<length (distances mx)] = Inl e \<Longrightarrow>
         pyomo_preflight fleet (Some mx) depot demands ntw nst = Inl e"
proof -
  let ?n = "length (distances mx)"
  let ?d = "case demands of None \<Rightarrow> replicate ?n 0
            | Some xs \<Rightarrow> if xs = [] then replicate ?n 0 else xs"
  let ?s = "case nst of None \<Rightarrow> replicate ?n 0
            | Some xs \<Rightarrow> if xs = [] then replicate ?n 0 else xs"
  from assms have shape: "?n \<noteq> 0" "length fleet \<noteq> 0" "length ?d = ?n" "length ?s = ?n"
    unfolding validated_bounds_def Let_def
    by (auto split: if_splits option.splits)
  from assms obtain his where his: "big_t_items (case ntw of None \<Rightarrow> [] | Some tws \<Rightarrow> tws) = Inr his"
    and bounds: "tw_bounds_loop (max 10000 (fold max his 10000)) (windows_or_none ?n ntw) [0..<?n]
        = Inr bounds"
    unfolding validated_bounds_def Let_def
    by (auto split: if_splits sum.splits)
  show "pyomo_preflight fleet (Some mx) depot demands ntw nst
           = Inl (InfeasibleDemand (total_demand demands) (total_capacity fleet)
                    (length fleet) (map vehicle_cap fleet))"
    if "total_capacity fleet < total_demand demands"
    using that shape his bounds
    unfolding pyomo_preflight_def Let_def windows_or_none_def demands_or_zeros_sum caps_sum
    by simp
  show "pyomo_preflight fleet (Some mx) depot demands ntw nst = Inl e"
    if "\<not> total_capacity fleet < total_demand demands"
      "reach_loop
           (map (map py_round) (case durations mx of None \<Rightarrow> distances mx | Some t \<Rightarrow> t))
           depot bounds [0..<?n] = Inl e"
    using that shape his bounds
    unfolding pyomo_preflight_def Let_def windows_or_none_def demands_or_zeros_sum caps_sum
    by simp
qed

lemma reach_loop_first:
  assumes "\<forall>u \<in> set pre. int u \<noteq> depot \<longrightarrow>
             (\<exists>t. lookup2 durs depot (int u) = Some t \<and> t \<le> snd (bounds ! u))"
    and "int v \<noteq> depot" and "lookup2 durs depot (int v) = Some late"
    and "snd (bounds ! v) < late"
  shows "reach_loop durs depot bounds (pre @ v # post)
           = Inl (InfeasibleLatest v (snd (bounds ! v)) late)"
  using assms
proof (induction pre)
  case Nil
  then show ?case by simp
next
  case (Cons u pre)
  then show ?case
    by (cases "int u = depot") (auto simp: not_less [symmetric])
qed

text \<open>
  C3 (as amended).  The mathematical-programming engine rejects an infeasible instance
  before it builds its model.  Whenever total demand exceeds total capacity (the sum over
  the vehicles of the first capacity dimension, negative values counted as 0 and a
  missing capacity as \<open>10^9\<close>), \<open>solve\<close> raises; whenever a node other than the depot has a
  window \<open>[lo, hi]\<close> with \<open>hi\<close> strictly less than the rounded travel duration from the
  depot, \<open>solve\<close> raises.  When the validations before the two checks pass, the error raised
  is the precise one: for excess demand, the infeasibility error carrying total demand,
  total capacity, the number of vehicles and their capacities; otherwise, for the first
  node whose latest time is below its travel from the depot, the error naming that node,
  its latest time (the end of its window when it has one) and that travel.  Conversely an
  error about a node's latest time is raised only for such a node.
\<close>

theorem pyomo_preflight_rejects_infeasible:
  "(total_capacity fleet < total_demand demands \<longrightarrow>
      (\<exists>e. pyomo_preflight fleet matrix depot demands ntw nst = Inl e
         \<and> (e = InfeasibleDemand (total_demand demands) (total_capacity fleet)
                   (length fleet) (map vehicle_cap fleet)
            \<or> e = MatrixRequired \<or> e = EmptyDistanceMatrix \<or> e = FleetEmpty
            \<or> e = DemandsLength \<or> e = ServiceTimesLength \<or> e = PythonException
            \<or> (\<exists>k a b. e = InfeasibleTimeWindow k a b))))
   \<and> (matrix = Some mx \<and> ntw = Some tws \<and> i < length (distances mx) \<and> int i \<noteq> depot
        \<and> i < length tws \<and> tws ! i = Some [Some lo, Some hi]
        \<and> travel_from_depot mx depot i = Some lb \<and> hi < lb
      \<longrightarrow> (\<exists>e. pyomo_preflight fleet matrix depot demands ntw nst = Inl e))
   \<and> (pyomo_preflight fleet matrix depot demands ntw nst = Inl (InfeasibleLatest j h l)
      \<longrightarrow> (\<exists>mx'. matrix = Some mx' \<and> j < length (distances mx') \<and> int j \<noteq> depot
             \<and> travel_from_depot mx' depot j = Some l \<and> h < l
             \<and> (\<forall>tws' lo' hi'. ntw = Some tws' \<and> j < length tws'
                    \<and> tws' ! j = Some [Some lo', Some hi'] \<longrightarrow> h = hi')))
   \<and> (validated_bounds fleet vmx demands ntw nst = Some bounds
        \<and> total_capacity fleet < total_demand demands
      \<longrightarrow> pyomo_preflight fleet (Some vmx) depot demands ntw nst
            = Inl (InfeasibleDemand (total_demand demands) (total_capacity fleet)
                     (length fleet) (map vehicle_cap fleet)))
   \<and> (validated_bounds fleet vmx demands ntw nst = Some bounds
        \<and> \<not> total_capacity fleet < total_demand demands
        \<and> v < length (distances vmx) \<and> int v \<noteq> depot
        \<and> travel_from_depot vmx depot v = Some late \<and> snd (bounds ! v) < late
        \<and> (\<forall>u < v. int u \<noteq> depot \<longrightarrow>
               (\<exists>t. travel_from_depot vmx depot u = Some t \<and> t \<le> snd (bounds ! u)))
      \<longrightarrow> pyomo_preflight fleet (Some vmx) depot demands ntw nst
            = Inl (InfeasibleLatest v (snd (bounds ! v)) late))
   \<and> (validated_bounds fleet vmx demands ntw nst = Some bounds
        \<and> ntw = Some vtws \<and> v < length (distances vmx) \<and> v < length vtws
        \<and> vtws ! v = Some [Some vlo, Some vhi]
      \<longrightarrow> bounds ! v = (vlo, vhi))"
proof (intro conjI impI)
  assume over: "total_capacity fleet < total_demand demands"
  show "\<exists>e. pyomo_preflight fleet matrix depot demands ntw nst = Inl e
         \<and> (e = InfeasibleDemand (total_demand demands) (total_capacity fleet)
                   (length fleet) (map vehicle_cap fleet)
            \<or> e = MatrixRequired \<or> e = EmptyDistanceMatrix \<or> e = FleetEmpty
            \<or> e = DemandsLength \<or> e = ServiceTimesLength \<or> e = PythonException
            \<or> (\<exists>k a b. e = InfeasibleTimeWindow k a b))"
  proof -
    have "pyomo_preflight fleet matrix depot demands ntw nst
        = pyomo_preflight fleet matrix depot demands ntw nst" ..
    then show ?thesis
      using over by (cases rule: pyomo_preflight_cases) auto
  qed
next
  assume a: "matrix = Some mx \<and> ntw = Some tws \<and> i < length (distances mx) \<and> int i \<noteq> depot
        \<and> i < length tws \<and> tws ! i = Some [Some lo, Some hi]
        \<and> travel_from_depot mx depot i = Some lb \<and> hi < lb"
  have "pyomo_preflight fleet matrix depot demands ntw nst
      = pyomo_preflight fleet matrix depot demands ntw nst" ..
  then show "\<exists>e. pyomo_preflight fleet matrix depot demands ntw nst = Inl e"
  proof (cases rule: pyomo_preflight_cases)
    case (early e)
    then show ?thesis by blast
  next
    case demand
    then show ?thesis by blast
  next
    case (reach mx0 big_t bounds)
    let ?n = "length (distances mx)"
    let ?durs = "map (map py_round) (case durations mx of None \<Rightarrow> distances mx | Some t \<Rightarrow> t)"
    from reach(1) a have mx0: "mx0 = mx" by simp
    have w: "windows_or_none ?n ntw = tws"
      using a windows_or_none_given [of i tws ?n] by simp
    from tw_bounds_loop_nth [OF reach(3) [unfolded mx0 w]] a
    have "tw_bound_at big_t tws i = Inr (bounds ! i)" by auto
    with a have b: "bounds ! i = (lo, hi)"
      using tw_bound_at_given [of big_t tws i "bounds ! i" lo hi] by simp
    have lk: "lookup2 ?durs depot (int i) = Some lb"
      using a by (simp add: lookup2_map_round travel_from_depot_def)
    show ?thesis
    proof (cases "reach_loop ?durs depot bounds [0..<?n]")
      case (Inl e)
      with reach(4) [unfolded mx0] show ?thesis by simp
    next
      case (Inr u)
      from reach_loop_ok [OF Inr, of i] a lk b have "lb \<le> hi" by auto
      with a show ?thesis by simp
    qed
  qed
next
  assume r: "pyomo_preflight fleet matrix depot demands ntw nst = Inl (InfeasibleLatest j h l)"
  from r show "\<exists>mx'. matrix = Some mx' \<and> j < length (distances mx') \<and> int j \<noteq> depot
             \<and> travel_from_depot mx' depot j = Some l \<and> h < l
             \<and> (\<forall>tws' lo' hi'. ntw = Some tws' \<and> j < length tws'
                    \<and> tws' ! j = Some [Some lo', Some hi'] \<longrightarrow> h = hi')"
  proof (cases rule: pyomo_preflight_cases)
    case (early e)
    then show ?thesis by auto
  next
    case demand
    then show ?thesis by simp
  next
    case (reach mx0 big_t bounds)
    let ?n = "length (distances mx0)"
    let ?durs = "map (map py_round) (case durations mx0 of None \<Rightarrow> distances mx0 | Some t \<Rightarrow> t)"
    from reach(4) have e: "reach_loop ?durs depot bounds [0..<?n] = Inl (InfeasibleLatest j h l)"
      by (auto split: sum.splits)
    from reach_loop_error [OF e]
    have j: "j < ?n" "int j \<noteq> depot" "lookup2 ?durs depot (int j) = Some l"
      "snd (bounds ! j) < l" "h = snd (bounds ! j)"
      by auto
    have t: "travel_from_depot mx0 depot j = Some l"
      using j(3) by (simp add: lookup2_map_round travel_from_depot_def)
    have "h = hi'" if "ntw = Some tws'" "j < length tws'" "tws' ! j = Some [Some lo', Some hi']"
      for tws' lo' hi'
    proof -
      have w: "windows_or_none ?n ntw = tws'"
        using that windows_or_none_given [of j tws' ?n] by simp
      from tw_bounds_loop_nth [OF reach(3) [unfolded w]] j(1)
      have "tw_bound_at big_t tws' j = Inr (bounds ! j)" by auto
      with that have "bounds ! j = (lo', hi')"
        using tw_bound_at_given [of big_t tws' j "bounds ! j" lo' hi'] by simp
      with j(5) show ?thesis by simp
    qed
    with reach(1) j t show ?thesis by blast
  qed
next
  assume a: "validated_bounds fleet vmx demands ntw nst = Some bounds
        \<and> total_capacity fleet < total_demand demands"
  then show "pyomo_preflight fleet (Some vmx) depot demands ntw nst
            = Inl (InfeasibleDemand (total_demand demands) (total_capacity fleet)
                     (length fleet) (map vehicle_cap fleet))"
    using pyomo_preflight_validated(1) [of fleet vmx demands ntw nst bounds depot] by blast
next
  assume a: "validated_bounds fleet vmx demands ntw nst = Some bounds
        \<and> \<not> total_capacity fleet < total_demand demands
        \<and> v < length (distances vmx) \<and> int v \<noteq> depot
        \<and> travel_from_depot vmx depot v = Some late \<and> snd (bounds ! v) < late
        \<and> (\<forall>u < v. int u \<noteq> depot \<longrightarrow>
               (\<exists>t. travel_from_depot vmx depot u = Some t \<and> t \<le> snd (bounds ! u)))"
  let ?n = "length (distances vmx)"
  let ?durs = "map (map py_round) (case durations vmx of None \<Rightarrow> distances vmx | Some t \<Rightarrow> t)"
  have tr: "lookup2 ?durs depot (int u) = travel_from_depot vmx depot u" for u
    by (simp add: lookup2_map_round travel_from_depot_def)
  have split: "[0..<?n] = [0..<v] @ v # [Suc v..<?n]"
    using a upt_add_eq_append [of 0 v "?n - v"] by (simp add: upt_conv_Cons)
  have "reach_loop ?durs depot bounds ([0..<v] @ v # [Suc v..<?n])
      = Inl (InfeasibleLatest v (snd (bounds ! v)) late)"
    using a by (intro reach_loop_first) (auto simp: tr)
  then have "reach_loop ?durs depot bounds [0..<?n]
      = Inl (InfeasibleLatest v (snd (bounds ! v)) late)"
    by (simp only: split [symmetric])
  with a show "pyomo_preflight fleet (Some vmx) depot demands ntw nst
            = Inl (InfeasibleLatest v (snd (bounds ! v)) late)"
    using pyomo_preflight_validated(2) [of fleet vmx demands ntw nst bounds depot] by blast
next
  assume a: "validated_bounds fleet vmx demands ntw nst = Some bounds
        \<and> ntw = Some vtws \<and> v < length (distances vmx) \<and> v < length vtws
        \<and> vtws ! v = Some [Some vlo, Some vhi]"
  then obtain big_t where
    "tw_bounds_loop big_t (windows_or_none (length (distances vmx)) ntw)
       [0..<length (distances vmx)] = Inr bounds"
    using validated_bounds_loop [of fleet vmx demands ntw nst bounds] by blast
  moreover have "windows_or_none (length (distances vmx)) ntw = vtws"
    using a windows_or_none_given [of v vtws "length (distances vmx)"] by simp
  ultimately have "tw_bound_at big_t vtws v = Inr (bounds ! v)"
    using tw_bounds_loop_nth [of big_t vtws "[0..<length (distances vmx)]" bounds] a by auto
  with a show "bounds ! v = (vlo, vhi)"
    using tw_bound_at_given [of big_t vtws v "bounds ! v" vlo vhi] by simp
qed

theorem pyomo_preflight_rejects_infeasible_witness:
  "pyomo_preflight
       [\<lparr>v_id = ''veh-1'', v_capacity = Some [5], v_time_window = None,
         v_emissions_per_km = None, v_cost_per_km = None\<rparr>]
       (Some \<lparr>distances = [[0, 5], [5, 0]], durations = None\<rparr>) 0 (Some [0, 10]) None None
     = Inl (InfeasibleDemand 10 5 1 [5])
   \<and> pyomo_preflight
       [\<lparr>v_id = ''veh-1'', v_capacity = Some [50], v_time_window = None,
         v_emissions_per_km = None, v_cost_per_km = None\<rparr>]
       (Some \<lparr>distances = [[0, 5], [5, 0]], durations = None\<rparr>) 0 (Some [0, 10])
       (Some [None, Some [Some 0, Some 3]]) None
     = Inl (InfeasibleLatest 1 3 5)
   \<and> (\<exists>e. pyomo_preflight
          [\<lparr>v_id = ''veh-1'', v_capacity = Some [50], v_time_window = None,
            v_emissions_per_km = None, v_cost_per_km = None\<rparr>]
          (Some \<lparr>distances = [[0, 5], [5, 0]], durations = None\<rparr>) 0 (Some [0, 10])
          (Some [None, Some [Some 0, Some 3]]) None
        = Inl e)"
proof -
  let ?v5 = "\<lparr>v_id = ''veh-1'', v_capacity = Some [5], v_time_window = None,
            v_emissions_per_km = None, v_cost_per_km = None\<rparr>"
  let ?v50 = "\<lparr>v_id = ''veh-1'', v_capacity = Some [50], v_time_window = None,
            v_emissions_per_km = None, v_cost_per_km = None\<rparr>"
  let ?mx = "\<lparr>distances = [[0, 5], [5, 0]], durations = None\<rparr>"
  let ?tws = "[None, Some [Some 0, Some (3::int)]]"
  have td: "total_demand (Some [0, 10]) = 10" by (simp add: total_demand_def)
  have tc: "total_capacity [?v5] = 5" by (simp add: total_capacity_def vehicle_cap_def)
  have tc50: "total_capacity [?v50] = 50" by (simp add: total_capacity_def vehicle_cap_def)
  have tr: "travel_from_depot ?mx 0 1 = Some 5" by code_simp
  have vb5: "validated_bounds [?v5] ?mx (Some [0, 10]) None None
      = Some [(0, 10000), (0, 10000)]"
    by code_simp
  have vb50: "validated_bounds [?v50] ?mx (Some [0, 10]) (Some ?tws) None
      = Some [(0, 10000), (0, 3)]"
    by code_simp
  have one: "pyomo_preflight [?v5] (Some ?mx) 0 (Some [0, 10]) None None
      = Inl (InfeasibleDemand 10 5 1 [5])"
    using pyomo_preflight_rejects_infeasible
      [where fleet = "[?v5]" and demands = "Some [0, 10]" and vmx = ?mx
         and depot = 0 and ntw = None and nst = None
         and bounds = "[(0, 10000), (0, 10000)]",
       THEN conjunct2, THEN conjunct2, THEN conjunct2, THEN conjunct1]
      vb5
    by (simp add: td tc vehicle_cap_def)
  have two: "pyomo_preflight [?v50] (Some ?mx) 0 (Some [0, 10]) (Some ?tws) None
      = Inl (InfeasibleLatest 1 3 5)"
    using pyomo_preflight_rejects_infeasible
      [where fleet = "[?v50]" and demands = "Some [0, 10]" and vmx = ?mx
         and depot = 0 and ntw = "Some ?tws" and nst = None
         and bounds = "[(0, 10000), (0, 3)]" and v = 1 and late = 5,
       THEN conjunct2, THEN conjunct2, THEN conjunct2, THEN conjunct2, THEN conjunct1]
      vb50 tr
    by (simp add: td tc50)
  have three: "\<exists>e. pyomo_preflight [?v50] (Some ?mx) 0 (Some [0, 10]) (Some ?tws) None = Inl e"
    using pyomo_preflight_rejects_infeasible
      [where fleet = "[?v50]" and demands = "Some [0, 10]" and matrix = "Some ?mx"
         and mx = ?mx and depot = 0 and ntw = "Some ?tws"
         and tws = ?tws and i = 1 and lo = 0 and hi = 3
         and lb = 5 and nst = None, THEN conjunct2, THEN conjunct1]
      tr
    by simp
  from one two three show ?thesis by blast
qed

section \<open>services/solvers/ortools\_solver.py: normalization of the metaheuristic engine\<close>

record ortools_inputs =
  oi_N :: nat
  oi_depot :: int
  oi_demands :: "int list"
  oi_service_times :: "int list"
  oi_node_time_windows :: "(int \<times> int) list"
  oi_vehicle_time_windows :: "(int \<times> int) list"

definition ORTOOLS_INF :: int where
  \<comment> \<open>the module constant \<open>INF = 10**9\<close>\<close>
  "ORTOOLS_INF = 10 ^ 9"

definition align_len :: "'a list option \<Rightarrow> nat \<Rightarrow> 'a \<Rightarrow> 'a list" where
  \<comment> \<open>\<open>_align_len(arr, N, default)\<close>\<close>
  "align_len arr N dflt =
     (case arr of
        None \<Rightarrow> replicate N dflt
      | Some xs \<Rightarrow> if N \<le> length xs then take N xs
                   else xs @ replicate (N - length xs) dflt)"

definition window_to_seconds :: "int option list option \<Rightarrow> int \<times> int" where
  \<comment> \<open>the body of \<open>for t in tw\<close>: here, and only here, an inverted pair is swapped\<close>
  "window_to_seconds t =
     (let ab = (case t of
                  Some (a # b # others) \<Rightarrow> (a, b)
                | _ \<Rightarrow> (Some 0, Some ORTOOLS_INF));
          p = tw_pair_to_seconds (fst ab) (snd ab)
      in if snd p < fst p then (snd p, fst p) else p)"

definition normalize_inputs_for_matrix ::
  "matrix_result \<Rightarrow> int \<Rightarrow> int list option \<Rightarrow> int list option
     \<Rightarrow> int option list option list option \<Rightarrow> int option list option list option \<Rightarrow> nat
     \<Rightarrow> solver_error + ortools_inputs" where
  "normalize_inputs_for_matrix matrix depot_index demands node_service_times
       node_time_windows vehicle_time_windows vehicles_count =
     (let N = length (distances matrix) in
      if N = 0 \<or> (\<exists>row \<in> set (distances matrix). length row \<noteq> N) then Inl (NotSquare N)
      else if (case durations matrix of
                 None \<Rightarrow> False
               | Some t \<Rightarrow> length t \<noteq> N \<or> (\<exists>row \<in> set t. length row \<noteq> N))
      then Inl DurationShape
      else
        Inr \<lparr>oi_N = N,
             oi_depot = max 0 (min depot_index (int N - 1)),
             oi_demands = align_len demands N 0,
             oi_service_times =
               map (\<lambda>x. svc_to_seconds (Some x)) (align_len node_service_times N 0),
             oi_node_time_windows =
               map window_to_seconds
                 (align_len node_time_windows N (Some [Some 0, Some ORTOOLS_INF])),
             oi_vehicle_time_windows =
               map window_to_seconds
                 (align_len vehicle_time_windows vehicles_count
                    (Some [Some 0, Some ORTOOLS_INF]))\<rparr>)"

definition ortools_normalize ::
  "vehicle list \<Rightarrow> matrix_result option \<Rightarrow> int \<Rightarrow> int list option
     \<Rightarrow> int option list option list option \<Rightarrow> int list option
     \<Rightarrow> solver_error + ortools_inputs" where
  \<comment> \<open>\<open>OrToolsSolver.solve\<close> up to the end of its normalization, with no
      \<open>vehicle_time_windows\<close> keyword: the vehicles' own windows are used.\<close>
  "ortools_normalize fleet matrix depot_index demands node_time_windows node_service_times =
     (case matrix of
        None \<Rightarrow> Inl MatrixRequired
      | Some mx \<Rightarrow>
          if distances mx = [] then Inl MatrixRequired
          else if fleet = [] then Inl FleetEmpty
          else normalize_inputs_for_matrix mx depot_index demands node_service_times
                 node_time_windows
                 (Some (map (\<lambda>v. map_option (map Some) (v_time_window v)) fleet))
                 (length fleet))"

text \<open>
  The claim as written speaks of every solve input.  For the metaheuristic engine neither
  the dispatcher's alignment nor the engine's normalization compares demand with capacity
  or a window with the travel from the depot: with demand 10, capacity 5, and the window
  \<open>[0, 3000]\<close> at a node 5000 away, both return normally.
\<close>

theorem ortools_normalization_counterexample:
  "total_capacity
     [\<lparr>v_id = ''veh-1'', v_capacity = Some [5], v_time_window = None,
       v_emissions_per_km = None, v_cost_per_km = None\<rparr>]
     < total_demand (Some [0, 10])
   \<and> normalize_optional_arrays_for_solver ''ortools''
       (Some \<lparr>distances = [[0, 5000], [5000, 0]], durations = None\<rparr>) (Some [0, 10])
       (Some [None, Some [Some 0, Some 3000]]) None
     = \<lparr>arr_demands = Some [0, 10],
        arr_node_time_windows = Some [Some [Some 0, Some 1000000000], Some [Some 0, Some 3000]],
        arr_node_service_times = Some [0, 0]\<rparr>
   \<and> ortools_normalize
       [\<lparr>v_id = ''veh-1'', v_capacity = Some [5], v_time_window = None,
         v_emissions_per_km = None, v_cost_per_km = None\<rparr>]
       (Some \<lparr>distances = [[0, 5000], [5000, 0]], durations = None\<rparr>) 0 (Some [0, 10])
       (Some [Some [Some 0, Some 1000000000], Some [Some 0, Some 3000]]) (Some [0, 0])
     = Inr \<lparr>oi_N = 2, oi_depot = 0, oi_demands = [0, 10], oi_service_times = [0, 0],
            oi_node_time_windows = [(0, 1000000000), (0, 3000)],
            oi_vehicle_time_windows = [(0, 1000000000)]\<rparr>"
  by code_simp

section \<open>api/solver\_routes.py: the Euclidean matrix built from planar waypoints\<close>

text \<open>
  A planar waypoint is the dict the helpers read: \<open>w.get("x")\<close> and \<open>w.get("y")\<close>, with
  \<^term>\<open>None\<close> for a missing key or a \<open>None\<close> value.  Coordinates are numbers.
\<close>

record planar_waypoint =
  w_x :: "real option"
  w_y :: "real option"

text \<open>
  The helpers test \<open>isinstance(w, dict)\<close>: an element of the waypoint list is either such a
  dict or an object of another class (a validated \<open>Waypoint\<close> model, which has neither
  \<open>x\<close> nor \<open>y\<close> nor a \<open>get\<close> method).
\<close>

datatype request_waypoint = DictWaypoint planar_waypoint | ModelWaypoint

fun carries_xy :: "request_waypoint \<Rightarrow> bool" where
  \<comment> \<open>the test that increments \<open>count\<close>\<close>
  "carries_xy (DictWaypoint w) = (w_x w \<noteq> None \<and> w_y w \<noteq> None)"
| "carries_xy ModelWaypoint = False"

definition has_euclidean_xy :: "request_waypoint list option \<Rightarrow> bool" where
  \<comment> \<open>\<open>_has_euclidean_xy\<close>\<close>
  "has_euclidean_xy waypoints =
     (case waypoints of
        None \<Rightarrow> False
      | Some ws \<Rightarrow>
          if ws = [] then False
          else max 1 (length ws div 2) \<le> length (filter carries_xy ws))"

definition euclid :: "real \<times> real \<Rightarrow> real \<times> real \<Rightarrow> real" where
  \<comment> \<open>\<open>_euclid\<close>: \<open>math.hypot(ax - bx, ay - by)\<close>\<close>
  "euclid a b = sqrt ((fst a - fst b)\<^sup>2 + (snd a - snd b)\<^sup>2)"

fun waypoint_coords :: "request_waypoint list \<Rightarrow> py_error + (real \<times> real) list" where
  \<comment> \<open>the loop that fills \<open>coords\<close>; \<open>w.get\<close> on an object without it raises\<close>
  "waypoint_coords [] = Inr []"
| "waypoint_coords (ModelWaypoint # ws) = Inl AttributeError"
| "waypoint_coords (DictWaypoint w # ws) =
     (case w_x w of
        None \<Rightarrow> Inl ValueError
      | Some x \<Rightarrow>
          (case w_y w of
             None \<Rightarrow> Inl ValueError
           | Some y \<Rightarrow>
               (case waypoint_coords ws of
                  Inl e \<Rightarrow> Inl e
                | Inr cs \<Rightarrow> Inr ((x, y) # cs))))"

definition set_entry :: "real list list \<Rightarrow> nat \<Rightarrow> nat \<Rightarrow> real \<Rightarrow> real list list" where
  \<comment> \<open>\<open>table[i][j] = v\<close>\<close>
  "set_entry table i j v = table[i := (table ! i)[j := v]]"

definition fill_row :: "(real \<times> real) list \<Rightarrow> nat \<Rightarrow> real list list \<Rightarrow> real list list" where
  \<comment> \<open>\<open>for j in range(i + 1, n)\<close>\<close>
  "fill_row coords i table =
     fold (\<lambda>j t. set_entry (set_entry t i j (euclid (coords ! i) (coords ! j))) j i
                     (euclid (coords ! i) (coords ! j)))
       [i + 1..<length coords] table"

definition fill_distances :: "(real \<times> real) list \<Rightarrow> real list list" where
  \<comment> \<open>\<open>for i in range(n)\<close> over the table of zeros\<close>
  "fill_distances coords =
     fold (fill_row coords) [0..<length coords]
       (replicate (length coords) (replicate (length coords) 0))"

definition build_euclidean_matrix_from_waypoints ::
  "request_waypoint list \<Rightarrow> real option \<Rightarrow> py_error + matrix_result" where
  "build_euclidean_matrix_from_waypoints waypoints duration_scale =
     (case waypoint_coords waypoints of
        Inl e \<Rightarrow> Inl e
      | Inr coords \<Rightarrow>
          (let dists = fill_distances coords;
               scale = (case duration_scale of None \<Rightarrow> 60 | Some sc \<Rightarrow> sc)
           in Inr \<lparr>distances = dists,
                   durations =
                     Some (map (map (\<lambda>d. real_of_int (py_round (d * scale)))) dists)\<rparr>))"

fun window_width :: "int option list option \<Rightarrow> int option" where
  \<comment> \<open>a window enters \<open>widths\<close> when it is a list of exactly two bounds, both given\<close>
  "window_width (Some [Some s, Some e]) = Some (max 0 (e - s))"
| "window_width tw = None"

definition window_widths :: "int option list option list \<Rightarrow> int list" where
  "window_widths tws = List.map_filter window_width tws"

definition guess_euclidean_duration_scale ::
  "int option list option list option \<Rightarrow> int list option \<Rightarrow> real" where
  \<comment> \<open>the bounds are ints, so nothing in the \<open>try\<close> block raises\<close>
  "guess_euclidean_duration_scale node_time_windows node_service_times =
     (let widths = (case node_time_windows of None \<Rightarrow> [] | Some tws \<Rightarrow> window_widths tws);
          max_width = (case widths of [] \<Rightarrow> 0 | w # ws \<Rightarrow> fold max ws w)
      in if 20000 \<le> max_width then 60 else 1)"

definition auto_matrix ::
  "matrix_result option \<Rightarrow> request_waypoint list option \<Rightarrow> int option list option list option
     \<Rightarrow> int list option \<Rightarrow> py_error + matrix_result option" where
  \<comment> \<open>the step of \<open>solve\<close> between the conversion of the request's matrix and the
      engine-specific preconditions\<close>
  "auto_matrix matrix waypoints node_time_windows node_service_times =
     (if matrix = None \<and> has_euclidean_xy waypoints then
        (case waypoints of
           None \<Rightarrow> Inr matrix
         | Some ws \<Rightarrow>
             (case build_euclidean_matrix_from_waypoints ws
                     (Some (guess_euclidean_duration_scale node_time_windows
                              node_service_times)) of
                Inl e \<Rightarrow> Inl e
              | Inr m \<Rightarrow> Inr (Some m)))
      else Inr matrix)"

text \<open>
  The rest of this stage of \<open>solve\<close>: the preconditions of each engine on the matrix that
  the step above leaves.  \<open>s\<close> is the engine name, lower-cased and stripped.  The
  \<open>HTTPException\<close> of status 400 passes through; any other exception leaves \<open>solve\<close>
  with status 500.
\<close>

datatype http_error =
    Unprocessable422
  | MatrixRequired400
  | WaypointsOrMatrix400
  | Internal500 py_error

definition solve_matrix_stage ::
  "string \<Rightarrow> matrix_result option \<Rightarrow> request_waypoint list option
     \<Rightarrow> int option list option list option \<Rightarrow> int list option
     \<Rightarrow> http_error + matrix_result option" where
  "solve_matrix_stage s matrix waypoints node_time_windows node_service_times =
     (case auto_matrix matrix waypoints node_time_windows node_service_times of
        Inl e \<Rightarrow> Inl (Internal500 e)
      | Inr m \<Rightarrow>
          if s = ''ortools'' \<or> s = ''pyomo'' then
            (case m of
               None \<Rightarrow> Inl MatrixRequired400
             | Some r \<Rightarrow>
                 if distances r = [] \<and> (durations r = None \<or> durations r = Some [])
                 then Inl MatrixRequired400 else Inr m)
          else if s = ''vroom'' then
            (if (waypoints = None \<or> waypoints = Some []) \<and> m = None
             then Inl WaypointsOrMatrix400 else Inr m)
          else Inr m)"

text \<open>
  \<open>solve\<close> receives a validated \<open>SolveRequest\<close>, whose field \<open>waypoints\<close> is declared
  \<open>Optional[List[Waypoint]]\<close>.  A waypoint of the request body is a JSON object; in its
  flat shape it has an \<open>id\<close> and may have \<open>lat\<close>, \<open>lon\<close>, \<open>x\<close> and \<open>y\<close> (\<^term>\<open>None\<close>: the key
  is absent).  Validation turns \<open>lat\<close> and \<open>lon\<close> into the required \<open>location\<close> and fails
  (status 422, before \<open>solve\<close> runs) without them; the \<open>Waypoint\<close> class declares no field
  \<open>x\<close> or \<open>y\<close>, so these keys are dropped, and the validated element is a \<open>Waypoint\<close>
  object, not a dict.
\<close>

record json_waypoint =
  j_id :: string
  j_lat :: "real option"
  j_lon :: "real option"
  j_x :: "real option"
  j_y :: "real option"

definition validate_waypoints :: "json_waypoint list \<Rightarrow> http_error + request_waypoint list" where
  "validate_waypoints js =
     (if list_all (\<lambda>j. j_lat j \<noteq> None \<and> j_lon j \<noteq> None) js
      then Inr (map (\<lambda>j. ModelWaypoint) js)
      else Inl Unprocessable422)"

definition solve_request_matrix ::
  "string \<Rightarrow> json_waypoint list \<Rightarrow> int option list option list option \<Rightarrow> int list option
     \<Rightarrow> http_error + matrix_result option" where
  \<comment> \<open>a request body with no matrix and the waypoints \<open>js\<close>, up to the engine's
      preconditions\<close>
  "solve_request_matrix s js node_time_windows node_service_times =
     (case validate_waypoints js of
        Inl e \<Rightarrow> Inl e
      | Inr ws \<Rightarrow> solve_matrix_stage s None (Some ws) node_time_windows node_service_times)"

text \<open>The scale as the specification words it.\<close>

fun spans_at_least :: "int \<Rightarrow> int option list option \<Rightarrow> bool" where
  "spans_at_least w (Some [Some s, Some e]) = (w \<le> e - s)"
| "spans_at_least w tw = False"

definition spec_duration_scale :: "int option list option list option \<Rightarrow> real" where
  "spec_duration_scale node_time_windows =
     (if list_ex (spans_at_least 20000)
           (case node_time_windows of None \<Rightarrow> [] | Some tws \<Rightarrow> tws)
      then 60 else 1)"

definition square :: "nat \<Rightarrow> 'a list list \<Rightarrow> bool" where
  "square n table \<longleftrightarrow> length table = n \<and> list_all (\<lambda>row. length row = n) table"

lemma euclid_sym: "euclid a b = euclid b a"
  by (simp add: euclid_def power2_commute)

lemma euclid_self [simp]: "euclid a a = 0"
  by (simp add: euclid_def)

lemma square_row: "square n t \<Longrightarrow> a < n \<Longrightarrow> length (t ! a) = n"
  by (simp add: square_def list_all_length)

lemma set_entry_square: "square n t \<Longrightarrow> square n (set_entry t i j v)"
proof -
  assume sq: "square n t"
  have "length (t[i := (t ! i)[j := v]] ! a) = n" if "a < length t" for a
  proof (cases "a = i")
    case True
    with that sq show ?thesis by (simp add: square_def list_all_length)
  next
    case False
    with that sq show ?thesis by (simp add: square_def list_all_length)
  qed
  with sq show ?thesis
    by (simp add: square_def set_entry_def list_all_length)
qed

lemma set_entry_nth:
  "square n t \<Longrightarrow> i < n \<Longrightarrow> j < n \<Longrightarrow> a < n \<Longrightarrow> b < n \<Longrightarrow>
   set_entry t i j v ! a ! b = (if a = i \<and> b = j then v else t ! a ! b)"
  by (auto simp: square_def set_entry_def list_all_length nth_list_update)

lemma fill_fold:
  assumes "i < n"
  shows "square n t \<Longrightarrow> set js \<subseteq> {..<n} \<Longrightarrow> i \<notin> set js \<Longrightarrow>
         square n (fold (\<lambda>j t. set_entry (set_entry t i j (euclid (c ! i) (c ! j))) j i
                                   (euclid (c ! i) (c ! j))) js t)
       \<and> (\<forall>a < n. \<forall>b < n.
            fold (\<lambda>j t. set_entry (set_entry t i j (euclid (c ! i) (c ! j))) j i
                           (euclid (c ! i) (c ! j))) js t ! a ! b
            = (if (a = i \<and> b \<in> set js) \<or> (b = i \<and> a \<in> set js)
               then euclid (c ! a) (c ! b) else t ! a ! b))"
proof (induction js arbitrary: t)
  case Nil
  then show ?case by simp
next
  case (Cons j js)
  let ?d = "euclid (c ! i) (c ! j)"
  let ?t1 = "set_entry (set_entry t i j ?d) j i ?d"
  have j: "j < n" "j \<noteq> i" using Cons.prems by auto
  have sq0: "square n (set_entry t i j ?d)"
    using Cons.prems(1) by (rule set_entry_square)
  have sq1: "square n ?t1"
    using sq0 by (rule set_entry_square)
  have t1: "?t1 ! a ! b = (if (a = i \<and> b = j) \<or> (a = j \<and> b = i) then euclid (c ! a) (c ! b)
                           else t ! a ! b)"
    if "a < n" "b < n" for a b
    using that j assms Cons.prems(1) sq0
    by (auto simp: set_entry_nth euclid_sym)
  have rest: "set js \<subseteq> {..<n}" "i \<notin> set js"
    using Cons.prems by auto
  from Cons.IH [OF sq1 rest]
  show ?case
    using t1 by (auto simp del: set_entry_def)
qed

lemma fill_row_result:
  assumes "i < length c" and "square (length c) t"
  shows "square (length c) (fill_row c i t)"
    and "a < length c \<Longrightarrow> b < length c \<Longrightarrow>
         fill_row c i t ! a ! b
           = (if (a = i \<and> i < b) \<or> (b = i \<and> i < a) then euclid (c ! a) (c ! b) else t ! a ! b)"
proof -
  have sub: "set [i + 1..<length c] \<subseteq> {..<length c}" by auto
  have ni: "i \<notin> set [i + 1..<length c]" by simp
  note f = fill_fold [OF assms(1) assms(2) sub ni, of c]
  from f show "square (length c) (fill_row c i t)"
    by (simp add: fill_row_def)
  assume "a < length c" "b < length c"
  with f have "fill_row c i t ! a ! b
      = (if (a = i \<and> b \<in> set [i + 1..<length c]) \<or> (b = i \<and> a \<in> set [i + 1..<length c])
         then euclid (c ! a) (c ! b) else t ! a ! b)"
    unfolding fill_row_def by blast
  also have "\<dots> = (if (a = i \<and> i < b) \<or> (b = i \<and> i < a) then euclid (c ! a) (c ! b)
                     else t ! a ! b)"
    using \<open>a < length c\<close> \<open>b < length c\<close> by auto
  finally show "fill_row c i t ! a ! b
           = (if (a = i \<and> i < b) \<or> (b = i \<and> i < a) then euclid (c ! a) (c ! b) else t ! a ! b)" .
qed

lemma fill_rows_upto:
  "k \<le> length c \<Longrightarrow> square (length c) t \<Longrightarrow>
   square (length c) (fold (fill_row c) [0..<k] t)
   \<and> (\<forall>a < length c. \<forall>b < length c.
        fold (fill_row c) [0..<k] t ! a ! b
        = (if a \<noteq> b \<and> (a < k \<or> b < k) then euclid (c ! a) (c ! b) else t ! a ! b))"
proof (induction k)
  case 0
  then show ?case by simp
next
  case (Suc k)
  let ?t = "fold (fill_row c) [0..<k] t"
  from Suc have sq: "square (length c) ?t"
    and old: "\<And>a b. a < length c \<Longrightarrow> b < length c \<Longrightarrow>
        ?t ! a ! b = (if a \<noteq> b \<and> (a < k \<or> b < k) then euclid (c ! a) (c ! b) else t ! a ! b)"
    by auto
  have k: "k < length c" using Suc.prems by simp
  have step: "fold (fill_row c) [0..<Suc k] t = fill_row c k ?t"
    by simp
  show ?case
    unfolding step
    using fill_row_result [OF k sq] old
    by (auto simp: less_Suc_eq)
qed

lemma fill_distances_result:
  "square (length c) (fill_distances c)"
  "a < length c \<Longrightarrow> b < length c \<Longrightarrow> fill_distances c ! a ! b = euclid (c ! a) (c ! b)"
proof -
  let ?z = "replicate (length c) (replicate (length c) (0::real))"
  have sq: "square (length c) ?z"
    by (simp add: square_def list_all_length)
  from fill_rows_upto [OF le_refl sq]
  show "square (length c) (fill_distances c)"
    by (simp add: fill_distances_def)
  assume "a < length c" "b < length c"
  with fill_rows_upto [OF le_refl sq]
  show "fill_distances c ! a ! b = euclid (c ! a) (c ! b)"
    by (auto simp: fill_distances_def)
qed

lemma waypoint_coords_all:
  "\<forall>w \<in> set ws. w_x w \<noteq> None \<and> w_y w \<noteq> None \<Longrightarrow>
   \<exists>cs. waypoint_coords (map DictWaypoint ws) = Inr cs \<and> length cs = length ws
      \<and> (\<forall>i < length ws. w_x (ws ! i) = Some (fst (cs ! i)) \<and> w_y (ws ! i) = Some (snd (cs ! i)))"
proof (induction ws)
  case Nil
  then show ?case by simp
next
  case (Cons w ws)
  then obtain cs where cs: "waypoint_coords (map DictWaypoint ws) = Inr cs"
    "length cs = length ws"
    "\<forall>i < length ws. w_x (ws ! i) = Some (fst (cs ! i)) \<and> w_y (ws ! i) = Some (snd (cs ! i))"
    by auto
  from Cons.prems obtain x y where xy: "w_x w = Some x" "w_y w = Some y"
    by auto
  have "waypoint_coords (map DictWaypoint (w # ws)) = Inr ((x, y) # cs)"
    by (simp add: xy cs)
  moreover have "\<forall>i < length (w # ws). w_x ((w # ws) ! i) = Some (fst (((x, y) # cs) ! i))
      \<and> w_y ((w # ws) ! i) = Some (snd (((x, y) # cs) ! i))"
    using cs(3) xy by (auto simp: nth_Cons split: nat.splits)
  ultimately show ?case using cs(2) by auto
qed

lemma has_euclidean_xy_all:
  "ws \<noteq> [] \<Longrightarrow> \<forall>w \<in> set ws. w_x w \<noteq> None \<and> w_y w \<noteq> None \<Longrightarrow>
   has_euclidean_xy (Some (map DictWaypoint ws))"
proof -
  assume ne: "ws \<noteq> []" and all: "\<forall>w \<in> set ws. w_x w \<noteq> None \<and> w_y w \<noteq> None"
  from all have "filter carries_xy (map DictWaypoint ws) = map DictWaypoint ws"
    by (simp add: filter_id_conv)
  moreover have "max 1 (length ws div 2) \<le> length ws"
    using ne by (cases ws) auto
  ultimately show ?thesis using ne by (simp add: has_euclidean_xy_def)
qed

lemma model_waypoints_build_nothing:
  "\<forall>w \<in> set ws. w = ModelWaypoint \<Longrightarrow> auto_matrix None (Some ws) ntw nst = Inr None"
proof -
  assume "\<forall>w \<in> set ws. w = ModelWaypoint"
  then have "filter carries_xy ws = []"
    by (auto simp: filter_empty_conv)
  then have "\<not> has_euclidean_xy (Some ws)"
    by (simp add: has_euclidean_xy_def)
  then show ?thesis by (simp add: auto_matrix_def)
qed

lemma fold_max_ge: "(k \<le> fold max xs (x::int)) = (k \<le> x \<or> (\<exists>y \<in> set xs. k \<le> y))"
  by (induction xs arbitrary: x) (auto simp: max_def)

lemma window_width_ge:
  "0 < k \<Longrightarrow> (\<exists>y. window_width tw = Some y \<and> k \<le> y) = spans_at_least k tw"
  by (cases tw rule: window_width.cases) auto

lemma window_widths_ge:
  "0 < k \<Longrightarrow> (\<exists>y \<in> set (window_widths tws). k \<le> y) = list_ex (spans_at_least k) tws"
proof (induction tws)
  case Nil
  then show ?case by (simp add: window_widths_def)
next
  case (Cons tw tws)
  have "(\<exists>y \<in> set (window_widths (tw # tws)). k \<le> y)
      = ((\<exists>y. window_width tw = Some y \<and> k \<le> y) \<or> (\<exists>y \<in> set (window_widths tws). k \<le> y))"
    by (cases "window_width tw") (auto simp: window_widths_def)
  with Cons window_width_ge [of k tw] show ?case
    by simp
qed

lemma guess_scale_is_spec:
  "guess_euclidean_duration_scale ntw nst = spec_duration_scale ntw"
proof -
  let ?tws = "case ntw of None \<Rightarrow> [] | Some tws \<Rightarrow> tws"
  have w: "(case ntw of None \<Rightarrow> [] | Some tws \<Rightarrow> window_widths tws) = window_widths ?tws"
    by (simp add: window_widths_def split: option.splits)
  have "(20000 \<le> (case window_widths ?tws of [] \<Rightarrow> 0 | w # ws \<Rightarrow> fold max ws w))
      = (\<exists>y \<in> set (window_widths ?tws). 20000 \<le> y)"
    by (cases "window_widths ?tws") (auto simp: fold_max_ge)
  also have "\<dots> = list_ex (spans_at_least 20000) ?tws"
    by (rule window_widths_ge) simp
  finally show ?thesis
    unfolding guess_euclidean_duration_scale_def spec_duration_scale_def Let_def w
    by simp
qed

lemma square_map_map: "square n t \<Longrightarrow> square n (map (map f) t)"
  by (simp add: square_def list_all_length)

text \<open>
  What the step computes when the waypoint list holds dicts that all carry \<open>x\<close> and \<open>y\<close>: a
  square matrix of the size of the list; \<open>distances[i][j]\<close> is the Euclidean distance
  between waypoints \<open>i\<close> and \<open>j\<close>, and \<open>durations[i][j]\<close> is
  \<open>round(distances[i][j] * scale)\<close>, with scale 60 when some given window (two bounds,
  both present) spans at least 20000 and scale 1 otherwise.
\<close>

lemma auto_matrix_of_dicts_is_euclidean:
  assumes "ws \<noteq> []" and "\<forall>w \<in> set ws. w_x w \<noteq> None \<and> w_y w \<noteq> None"
  shows "\<exists>m table.
           auto_matrix None (Some (map DictWaypoint ws)) ntw nst = Inr (Some m)
         \<and> square (length ws) (distances m)
         \<and> durations m = Some table \<and> square (length ws) table
         \<and> (\<forall>i < length ws. \<forall>j < length ws.
              (\<forall>xi yi xj yj.
                  w_x (ws ! i) = Some xi \<and> w_y (ws ! i) = Some yi
                \<and> w_x (ws ! j) = Some xj \<and> w_y (ws ! j) = Some yj
                \<longrightarrow> distances m ! i ! j = sqrt ((xi - xj)\<^sup>2 + (yi - yj)\<^sup>2))
            \<and> table ! i ! j
                = real_of_int (py_round (distances m ! i ! j * spec_duration_scale ntw)))"
proof -
  from waypoint_coords_all [OF assms(2)]
  obtain cs where cs: "waypoint_coords (map DictWaypoint ws) = Inr cs" "length cs = length ws"
    and xy: "\<And>i. i < length ws \<Longrightarrow>
        w_x (ws ! i) = Some (fst (cs ! i)) \<and> w_y (ws ! i) = Some (snd (cs ! i))"
    by blast
  let ?sc = "spec_duration_scale ntw"
  let ?dists = "fill_distances cs"
  let ?table = "map (map (\<lambda>d. real_of_int (py_round (d * ?sc)))) ?dists"
  let ?m = "\<lparr>distances = ?dists, durations = Some ?table\<rparr>"
  have sq: "square (length ws) ?dists"
    using fill_distances_result(1) [of cs] cs(2) by simp
  have am: "auto_matrix None (Some (map DictWaypoint ws)) ntw nst = Inr (Some ?m)"
    using has_euclidean_xy_all [OF assms]
    by (simp add: auto_matrix_def build_euclidean_matrix_from_waypoints_def cs(1)
        guess_scale_is_spec Let_def)
  have d: "?dists ! i ! j = sqrt ((xi - xj)\<^sup>2 + (yi - yj)\<^sup>2)"
    if "i < length ws" "j < length ws" "w_x (ws ! i) = Some xi" "w_y (ws ! i) = Some yi"
      "w_x (ws ! j) = Some xj" "w_y (ws ! j) = Some yj" for i j xi yi xj yj
  proof -
    have "?dists ! i ! j = euclid (cs ! i) (cs ! j)"
      using fill_distances_result(2) [of i cs j] that(1,2) cs(2) by simp
    moreover have "fst (cs ! i) = xi" "snd (cs ! i) = yi" "fst (cs ! j) = xj" "snd (cs ! j) = yj"
      using xy [OF that(1)] xy [OF that(2)] that(3-6) by simp_all
    ultimately show ?thesis by (simp add: euclid_def)
  qed
  have t: "?table ! i ! j = real_of_int (py_round (?dists ! i ! j * ?sc))"
    if "i < length ws" "j < length ws" for i j
    using that sq square_row [OF sq that(1)] by (simp add: square_def)
  have "square (length ws) (distances ?m) \<and> durations ?m = Some ?table
      \<and> square (length ws) ?table
      \<and> (\<forall>i < length ws. \<forall>j < length ws.
              (\<forall>xi yi xj yj.
                  w_x (ws ! i) = Some xi \<and> w_y (ws ! i) = Some yi
                \<and> w_x (ws ! j) = Some xj \<and> w_y (ws ! j) = Some yj
                \<longrightarrow> distances ?m ! i ! j = sqrt ((xi - xj)\<^sup>2 + (yi - yj)\<^sup>2))
            \<and> ?table ! i ! j
                = real_of_int (py_round (distances ?m ! i ! j * ?sc)))"
    using sq square_map_map [OF sq] d t by simp
  with am show ?thesis by blast
qed

lemma auto_matrix_of_dicts_example:
  "\<exists>m table.
     auto_matrix None
       (Some (map DictWaypoint [\<lparr>w_x = Some 0, w_y = Some 0\<rparr>, \<lparr>w_x = Some 3, w_y = Some 4\<rparr>]))
       (Some [Some [Some 0, Some 30000]]) None = Inr (Some m)
   \<and> durations m = Some table
   \<and> distances m ! 0 ! 1 = 5 \<and> table ! 0 ! 1 = 300"
proof -
  let ?ws = "[\<lparr>w_x = Some 0, w_y = Some 0\<rparr>, \<lparr>w_x = Some 3, w_y = Some 4\<rparr>]"
  let ?ntw = "Some [Some [Some 0, Some (30000::int)]]"
  have h1: "?ws \<noteq> []" by simp
  have h2: "\<forall>w \<in> set ?ws. w_x w \<noteq> None \<and> w_y w \<noteq> None" by simp
  from auto_matrix_of_dicts_is_euclidean [OF h1 h2, of ?ntw None]
  obtain m table where am: "auto_matrix None (Some (map DictWaypoint ?ws)) ?ntw None = Inr (Some m)"
    and du: "durations m = Some table"
    and en: "\<forall>i < length ?ws. \<forall>j < length ?ws.
              (\<forall>xi yi xj yj.
                  w_x (?ws ! i) = Some xi \<and> w_y (?ws ! i) = Some yi
                \<and> w_x (?ws ! j) = Some xj \<and> w_y (?ws ! j) = Some yj
                \<longrightarrow> distances m ! i ! j = sqrt ((xi - xj)\<^sup>2 + (yi - yj)\<^sup>2))
            \<and> table ! i ! j
                = real_of_int (py_round (distances m ! i ! j * spec_duration_scale ?ntw))"
    by blast
  from en have e01: "(\<forall>xi yi xj yj.
                  w_x (?ws ! 0) = Some xi \<and> w_y (?ws ! 0) = Some yi
                \<and> w_x (?ws ! 1) = Some xj \<and> w_y (?ws ! 1) = Some yj
                \<longrightarrow> distances m ! 0 ! 1 = sqrt ((xi - xj)\<^sup>2 + (yi - yj)\<^sup>2))
            \<and> table ! 0 ! 1
                = real_of_int (py_round (distances m ! 0 ! 1 * spec_duration_scale ?ntw))"
    by simp
  have "sqrt ((0 - 3)\<^sup>2 + (0 - 4)\<^sup>2) = sqrt (5\<^sup>2)" by simp
  also have "\<dots> = (5::real)" by simp
  finally have s: "sqrt ((0 - 3)\<^sup>2 + (0 - 4)\<^sup>2) = (5::real)" .
  from e01 have d: "distances m ! 0 ! 1 = sqrt ((0 - 3)\<^sup>2 + (0 - 4)\<^sup>2)" by simp
  have d5: "distances m ! 0 ! 1 = 5" using d s by simp
  have sc: "spec_duration_scale ?ntw = 60" by (simp add: spec_duration_scale_def)
  have r: "py_round (5 * 60) = 300" by (simp add: py_round_def)
  from e01 d5 sc r have "table ! 0 ! 1 = 300" by simp
  with am du d5 show ?thesis by blast
qed

lemma auto_matrix_of_dicts_rounds_half_to_even:
  "\<exists>m table.
     auto_matrix None
       (Some (map DictWaypoint [\<lparr>w_x = Some 0, w_y = Some 0\<rparr>, \<lparr>w_x = Some (3 / 2), w_y = Some 2\<rparr>]))
       None None = Inr (Some m)
   \<and> durations m = Some table
   \<and> distances m ! 0 ! 1 = 5 / 2 \<and> table ! 0 ! 1 = 2"
proof -
  let ?ws = "[\<lparr>w_x = Some 0, w_y = Some 0\<rparr>, \<lparr>w_x = Some (3 / 2), w_y = Some (2::real)\<rparr>]"
  have h1: "?ws \<noteq> []" by simp
  have h2: "\<forall>w \<in> set ?ws. w_x w \<noteq> None \<and> w_y w \<noteq> None" by (simp del: not_None_eq)
  from auto_matrix_of_dicts_is_euclidean [OF h1 h2, of None None]
  obtain m table where am: "auto_matrix None (Some (map DictWaypoint ?ws)) None None = Inr (Some m)"
    and du: "durations m = Some table"
    and en: "\<forall>i < length ?ws. \<forall>j < length ?ws.
              (\<forall>xi yi xj yj.
                  w_x (?ws ! i) = Some xi \<and> w_y (?ws ! i) = Some yi
                \<and> w_x (?ws ! j) = Some xj \<and> w_y (?ws ! j) = Some yj
                \<longrightarrow> distances m ! i ! j = sqrt ((xi - xj)\<^sup>2 + (yi - yj)\<^sup>2))
            \<and> table ! i ! j
                = real_of_int (py_round (distances m ! i ! j * spec_duration_scale None))"
    by blast
  from en have e01: "(\<forall>xi yi xj yj.
                  w_x (?ws ! 0) = Some xi \<and> w_y (?ws ! 0) = Some yi
                \<and> w_x (?ws ! 1) = Some xj \<and> w_y (?ws ! 1) = Some yj
                \<longrightarrow> distances m ! 0 ! 1 = sqrt ((xi - xj)\<^sup>2 + (yi - yj)\<^sup>2))
            \<and> table ! 0 ! 1
                = real_of_int (py_round (distances m ! 0 ! 1 * spec_duration_scale None))"
    by simp
  have "(0 - 3 / 2)\<^sup>2 + (0 - 2)\<^sup>2 = ((5 / 2)\<^sup>2 :: real)" by (simp add: power2_eq_square)
  then have "sqrt ((0 - 3 / 2)\<^sup>2 + (0 - 2)\<^sup>2) = sqrt ((5 / 2)\<^sup>2)" by (simp only:)
  also have "\<dots> = (5 / 2 :: real)" by simp
  finally have s: "sqrt ((0 - 3 / 2)\<^sup>2 + (0 - 2)\<^sup>2) = (5 / 2 :: real)" .
  from e01 have d: "distances m ! 0 ! 1 = sqrt ((0 - 3 / 2)\<^sup>2 + (0 - 2)\<^sup>2)" by simp
  have d5: "distances m ! 0 ! 1 = 5 / 2" using d s by simp
  have sc: "spec_duration_scale None = 1" by (simp add: spec_duration_scale_def)
  from e01 have "table ! 0 ! 1
      = real_of_int (py_round (distances m ! 0 ! 1 * spec_duration_scale None))"
    by (rule conjunct2)
  then have "table ! 0 ! 1 = real_of_int (py_round (5 / 2 * 1))"
    by (simp only: d5 sc)
  then have "table ! 0 ! 1 = 2" by (simp add: py_round_def)
  with am du d5 show ?thesis by blast
qed

lemma validate_waypoints_models:
  "validate_waypoints js = Inr ws \<Longrightarrow> \<forall>w \<in> set ws. w = ModelWaypoint"
  by (auto simp: validate_waypoints_def split: if_splits)

text \<open>
  C6.  The dispatcher does not build a Euclidean matrix for a request that provides no
  matrix and whose waypoints carry planar \<open>(x, y)\<close> coordinates.  The waypoints of a
  validated request are \<open>Waypoint\<close> objects; the test \<open>isinstance(w, dict)\<close> counts none of
  them, so for every list of waypoints the matrix stays absent: the request is answered
  with status 400 (\<open>matrix is required\<close>) for the engines that need a matrix, and status 422
  when a waypoint has no \<open>lat\<close> and \<open>lon\<close>.  So it is for the two waypoints \<open>(0, 0)\<close> and
  \<open>(3, 4)\<close> with a window spanning 30000, for which the helpers, given dicts, build the
  distance 5 and the duration 300.
\<close>

theorem request_waypoints_build_no_matrix:
  "solve_request_matrix ''ortools'' js ntw nst
     = (if list_all (\<lambda>j. j_lat j \<noteq> None \<and> j_lon j \<noteq> None) js
        then Inl MatrixRequired400 else Inl Unprocessable422)
   \<and> solve_request_matrix ''pyomo'' js ntw nst
     = (if list_all (\<lambda>j. j_lat j \<noteq> None \<and> j_lon j \<noteq> None) js
        then Inl MatrixRequired400 else Inl Unprocessable422)
   \<and> solve_request_matrix ''vroom'' js ntw nst
     = (if list_all (\<lambda>j. j_lat j \<noteq> None \<and> j_lon j \<noteq> None) js
        then (if js = [] then Inl WaypointsOrMatrix400 else Inr None)
        else Inl Unprocessable422)
   \<and> validate_waypoints
       [\<lparr>j_id = ''0'', j_lat = Some 0, j_lon = Some 0, j_x = Some 0, j_y = Some 0\<rparr>,
        \<lparr>j_id = ''1'', j_lat = Some 3, j_lon = Some 4, j_x = Some 3, j_y = Some 4\<rparr>]
     = Inr [ModelWaypoint, ModelWaypoint]
   \<and> auto_matrix None (Some [ModelWaypoint, ModelWaypoint])
       (Some [Some [Some 0, Some 30000], Some [Some 0, Some 30000]]) None = Inr None
   \<and> solve_request_matrix ''ortools''
       [\<lparr>j_id = ''0'', j_lat = Some 0, j_lon = Some 0, j_x = Some 0, j_y = Some 0\<rparr>,
        \<lparr>j_id = ''1'', j_lat = Some 3, j_lon = Some 4, j_x = Some 3, j_y = Some 4\<rparr>]
       (Some [Some [Some 0, Some 30000], Some [Some 0, Some 30000]]) None
     = Inl MatrixRequired400"
proof -
  have none: "auto_matrix None (Some ws) ntw' nst' = Inr None"
    if "validate_waypoints js' = Inr ws" for js' ws ntw' nst'
    using model_waypoints_build_nothing [OF validate_waypoints_models [OF that]] .
  have v: "validate_waypoints js' =
      (if list_all (\<lambda>j. j_lat j \<noteq> None \<and> j_lon j \<noteq> None) js'
       then Inr (map (\<lambda>j. ModelWaypoint) js') else Inl Unprocessable422)" for js'
    by (simp add: validate_waypoints_def)
  have am: "auto_matrix None (Some (map (\<lambda>j. ModelWaypoint) js')) ntw' nst' = Inr None"
    for js' :: "json_waypoint list" and ntw' nst'
    by (rule model_waypoints_build_nothing) simp
  have g1: "solve_request_matrix ''ortools'' js' ntw' nst'
     = (if list_all (\<lambda>j. j_lat j \<noteq> None \<and> j_lon j \<noteq> None) js'
        then Inl MatrixRequired400 else Inl Unprocessable422)" for js' ntw' nst'
    by (simp add: solve_request_matrix_def v solve_matrix_stage_def am)
  have g2: "solve_request_matrix ''pyomo'' js ntw nst
     = (if list_all (\<lambda>j. j_lat j \<noteq> None \<and> j_lon j \<noteq> None) js
        then Inl MatrixRequired400 else Inl Unprocessable422)"
    by (simp add: solve_request_matrix_def v solve_matrix_stage_def am)
  have g3: "solve_request_matrix ''vroom'' js ntw nst
     = (if list_all (\<lambda>j. j_lat j \<noteq> None \<and> j_lon j \<noteq> None) js
        then (if js = [] then Inl WaypointsOrMatrix400 else Inr None)
        else Inl Unprocessable422)"
    by (simp add: solve_request_matrix_def v solve_matrix_stage_def am)
  have c1: "validate_waypoints
       [\<lparr>j_id = ''0'', j_lat = Some 0, j_lon = Some 0, j_x = Some 0, j_y = Some 0\<rparr>,
        \<lparr>j_id = ''1'', j_lat = Some 3, j_lon = Some 4, j_x = Some 3, j_y = Some 4\<rparr>]
     = Inr [ModelWaypoint, ModelWaypoint]"
    by (simp add: validate_waypoints_def)
  have c2: "auto_matrix None (Some [ModelWaypoint, ModelWaypoint])
       (Some [Some [Some 0, Some 30000], Some [Some 0, Some 30000]]) None = Inr None"
    by (simp add: auto_matrix_def has_euclidean_xy_def)
  have c3: "solve_request_matrix ''ortools''
       [\<lparr>j_id = ''0'', j_lat = Some 0, j_lon = Some 0, j_x = Some 0, j_y = Some 0\<rparr>,
        \<lparr>j_id = ''1'', j_lat = Some 3, j_lon = Some 4, j_x = Some 3, j_y = Some 4\<rparr>]
       (Some [Some [Some 0, Some 30000], Some [Some 0, Some 30000]]) None
     = Inl MatrixRequired400"
    by (simp add: g1)
  from g1 [of js ntw nst] g2 g3 c1 c2 c3 show ?thesis by (intro conjI)
qed

section \<open>adapters/offline/haversine\_adapter.py: the Haversine adapter\<close>

text \<open>
  \<open>math.radians\<close>, \<open>math.sin\<close>, \<open>math.cos\<close>, \<open>math.sqrt\<close> and \<open>math.atan2\<close> are the real
  functions, except for one thing that decides whether the call returns: the floats leave a
  rounding error in the term \<open>a\<close>, and \<open>math.sqrt\<close> raises \<open>ValueError\<close> on a negative
  argument.  The error in \<open>a\<close> is \<open>err lat1 lon1 lat2 lon2\<close>, a parameter of the model; exact
  arithmetic is \<open>err = (\<lambda>lat1 lon1 lat2 lon2. 0)\<close>.  In binary64, from \<open>(0.08, 0)\<close> to
  \<open>(-0.08, 180)\<close> the exact term is 1 and the computed one \<open>1.0000000000000002\<close>, an error
  of \<open>2\<^sup>-\<^sup>5\<^sup>2\<close>.
\<close>

record coordinate =
  c_lat :: real
  c_lon :: real

record matrix_request =
  origins :: "coordinate list option"
  destinations :: "coordinate list option"

datatype matrix_error = OriginsRequired | MathDomainError

type_synonym float_error = "real \<Rightarrow> real \<Rightarrow> real \<Rightarrow> real \<Rightarrow> real"

definition radians :: "real \<Rightarrow> real" where
  \<comment> \<open>\<open>math.radians\<close>\<close>
  "radians x = x * pi / 180"

definition py_atan2 :: "real \<Rightarrow> real \<Rightarrow> real" where
  \<comment> \<open>\<open>math.atan2(y, x)\<close>\<close>
  "py_atan2 y x =
     (if 0 < x then arctan (y / x)
      else if x < 0 \<and> 0 \<le> y then arctan (y / x) + pi
      else if x < 0 then arctan (y / x) - pi
      else if 0 < y then pi / 2
      else if y < 0 then - (pi / 2)
      else 0)"

definition haversine_km ::
  "float_error \<Rightarrow> real \<Rightarrow> real \<Rightarrow> real \<Rightarrow> real \<Rightarrow> matrix_error + real" where
  \<comment> \<open>\<open>_haversine_km\<close>; \<open>math.sqrt(a)\<close> and \<open>math.sqrt(1 - a)\<close> raise on a negative argument\<close>
  "haversine_km err lat1 lon1 lat2 lon2 =
     (let R = 6371;
          phi1 = radians lat1; phi2 = radians lat2;
          dphi = radians (lat2 - lat1);
          dlmb = radians (lon2 - lon1);
          a = (sin (dphi / 2))\<^sup>2 + cos phi1 * cos phi2 * (sin (dlmb / 2))\<^sup>2
              + err lat1 lon1 lat2 lon2
      in if a < 0 \<or> 1 - a < 0 then Inl MathDomainError
         else Inr (2 * R * py_atan2 (sqrt a) (sqrt (1 - a))))"

fun haversine_row ::
  "float_error \<Rightarrow> coordinate \<Rightarrow> coordinate list \<Rightarrow> matrix_error + real list" where
  \<comment> \<open>the inner loop, which appends to \<open>row\<close>\<close>
  "haversine_row err orig [] = Inr []"
| "haversine_row err orig (dest # ds) =
     (case haversine_km err (c_lat orig) (c_lon orig) (c_lat dest) (c_lon dest) of
        Inl e \<Rightarrow> Inl e
      | Inr x \<Rightarrow>
          (case haversine_row err orig ds of
             Inl e \<Rightarrow> Inl e
           | Inr row \<Rightarrow> Inr (x # row)))"

fun haversine_rows ::
  "float_error \<Rightarrow> coordinate list \<Rightarrow> coordinate list \<Rightarrow> matrix_error + real list list" where
  \<comment> \<open>the outer loop, which appends to \<open>distances\<close>\<close>
  "haversine_rows err [] ds = Inr []"
| "haversine_rows err (orig # os) ds =
     (case haversine_row err orig ds of
        Inl e \<Rightarrow> Inl e
      | Inr row \<Rightarrow>
          (case haversine_rows err os ds of
             Inl e \<Rightarrow> Inl e
           | Inr rows \<Rightarrow> Inr (row # rows)))"

definition get_matrix :: "float_error \<Rightarrow> matrix_request \<Rightarrow> matrix_error + matrix_result" where
  \<comment> \<open>\<open>HaversineAdapter.get_matrix\<close>; an empty list is falsy, like \<open>None\<close>. \<close>
  "get_matrix err request =
     (case origins request of
        None \<Rightarrow> Inl OriginsRequired
      | Some os \<Rightarrow>
          if os = [] then Inl OriginsRequired
          else
            (let ds = (case destinations request of
                         None \<Rightarrow> os
                       | Some xs \<Rightarrow> if xs = [] then os else xs)
             in case haversine_rows err os ds of
                  Inl e \<Rightarrow> Inl e
                | Inr rows \<Rightarrow> Inr \<lparr>distances = rows, durations = None\<rparr>))"

text \<open>
  The great-circle distance as the specification words it: the radius times the central
  angle between the two points, by the spherical law of cosines.
\<close>

definition great_circle_km :: "coordinate \<Rightarrow> coordinate \<Rightarrow> real" where
  "great_circle_km p q =
     6371 * arccos (sin (radians (c_lat p)) * sin (radians (c_lat q))
                    + cos (radians (c_lat p)) * cos (radians (c_lat q))
                      * cos (radians (c_lon q - c_lon p)))"

definition destinations_or_origins :: "matrix_request \<Rightarrow> coordinate list" where
  "destinations_or_origins request =
     (case destinations request of
        None \<Rightarrow> (case origins request of None \<Rightarrow> [] | Some os \<Rightarrow> os)
      | Some xs \<Rightarrow> if xs = [] then (case origins request of None \<Rightarrow> [] | Some os \<Rightarrow> os) else xs)"

text \<open>The haversine term of two points, and the term with the error of the floats.\<close>

definition haversine_term :: "coordinate \<Rightarrow> coordinate \<Rightarrow> real" where
  "haversine_term p q =
     (sin (radians (c_lat q - c_lat p) / 2))\<^sup>2
     + cos (radians (c_lat p)) * cos (radians (c_lat q))
       * (sin (radians (c_lon q - c_lon p) / 2))\<^sup>2"

definition float_term :: "float_error \<Rightarrow> coordinate \<Rightarrow> coordinate \<Rightarrow> real" where
  "float_term err p q = haversine_term p q + err (c_lat p) (c_lon p) (c_lat q) (c_lon q)"

definition sqrt_defined :: "float_error \<Rightarrow> coordinate \<Rightarrow> coordinate \<Rightarrow> bool" where
  "sqrt_defined err p q = (0 \<le> float_term err p q \<and> float_term err p q \<le> 1)"

lemma sin_half_sq: "(sin (x / 2))\<^sup>2 = (1 - cos x) / 2" for x :: real
proof -
  have "cos x = cos (2 * (x / 2))" by simp
  also have "\<dots> = 1 - 2 * (sin (x / 2))\<^sup>2" by (rule cos_double_sin)
  finally show ?thesis by simp
qed

lemma unit_dot_bound:
  fixes s1 c1 s2 c2 k :: real
  assumes "s1\<^sup>2 + c1\<^sup>2 = 1" "s2\<^sup>2 + c2\<^sup>2 = 1" "\<bar>k\<bar> \<le> 1"
  shows "\<bar>s1 * s2 + c1 * c2 * k\<bar> \<le> 1"
proof -
  have id: "(\<bar>s1\<bar> * \<bar>s2\<bar> + \<bar>c1\<bar> * \<bar>c2\<bar>)\<^sup>2 + (\<bar>s1\<bar> * \<bar>c2\<bar> - \<bar>c1\<bar> * \<bar>s2\<bar>)\<^sup>2
      = (s1\<^sup>2 + c1\<^sup>2) * (s2\<^sup>2 + c2\<^sup>2)"
    by (simp add: power2_eq_square algebra_simps)
  have nn: "0 \<le> (\<bar>s1\<bar> * \<bar>c2\<bar> - \<bar>c1\<bar> * \<bar>s2\<bar>)\<^sup>2" by simp
  have one: "(\<bar>s1\<bar> * \<bar>s2\<bar> + \<bar>c1\<bar> * \<bar>c2\<bar>)\<^sup>2 + (\<bar>s1\<bar> * \<bar>c2\<bar> - \<bar>c1\<bar> * \<bar>s2\<bar>)\<^sup>2 = 1"
    using id assms(1,2) by simp
  have "(\<bar>s1\<bar> * \<bar>s2\<bar> + \<bar>c1\<bar> * \<bar>c2\<bar>)\<^sup>2 \<le> 1"
    using nn one by linarith
  then have sq: "(\<bar>s1\<bar> * \<bar>s2\<bar> + \<bar>c1\<bar> * \<bar>c2\<bar>)\<^sup>2 \<le> 1\<^sup>2"
    by simp
  have b: "\<bar>s1\<bar> * \<bar>s2\<bar> + \<bar>c1\<bar> * \<bar>c2\<bar> \<le> 1"
    using power2_le_imp_le [OF sq] by simp
  have "\<bar>s1 * s2 + c1 * c2 * k\<bar> \<le> \<bar>s1 * s2\<bar> + \<bar>c1 * c2 * k\<bar>" by (rule abs_triangle_ineq)
  also have "\<dots> = \<bar>s1\<bar> * \<bar>s2\<bar> + \<bar>c1\<bar> * \<bar>c2\<bar> * \<bar>k\<bar>" by (simp add: abs_mult)
  also have "\<dots> \<le> \<bar>s1\<bar> * \<bar>s2\<bar> + \<bar>c1\<bar> * \<bar>c2\<bar> * 1"
    using assms(3) by (intro add_left_mono mult_left_mono) simp_all
  finally show ?thesis using b by simp
qed

lemma two_atan2_arccos:
  assumes "0 \<le> a" "a \<le> 1"
  shows "2 * py_atan2 (sqrt a) (sqrt (1 - a)) = arccos (1 - 2 * a)"
proof (cases "a = 1")
  case True
  then show ?thesis by (simp add: py_atan2_def)
next
  case False
  with assms have lt: "a < 1" by simp
  let ?x = "sqrt a / sqrt (1 - a)"
  let ?t = "arctan ?x"
  have pos: "0 < sqrt (1 - a)" using lt by simp
  have x0: "0 \<le> ?x" using assms pos by simp
  have t0: "0 \<le> ?t" using x0 by (simp only: zero_le_arctan_iff)
  have t1: "?t < pi / 2" by (rule arctan_ubound)
  have x2: "?x\<^sup>2 = a / (1 - a)"
    using assms lt by (simp add: power_divide)
  have "1 + ?x\<^sup>2 = 1 / (1 - a)"
    unfolding x2 using lt by (simp add: field_simps)
  then have "cos ?t = 1 / sqrt (1 / (1 - a))"
    by (simp only: cos_arctan)
  then have "(cos ?t)\<^sup>2 = 1 / (1 / (1 - a))"
    using lt by (simp add: power_divide)
  then have c2: "(cos ?t)\<^sup>2 = 1 - a"
    by simp
  have "cos (2 * ?t) = 2 * (cos ?t)\<^sup>2 - 1" by (rule cos_double_cos)
  also have "\<dots> = 1 - 2 * a" using c2 by simp
  finally have "cos (2 * ?t) = 1 - 2 * a" .
  then have "arccos (1 - 2 * a) = arccos (cos (2 * ?t))" by simp
  also have "\<dots> = 2 * ?t"
    using t0 t1 by (intro arccos_cos) simp_all
  finally show ?thesis using pos by (simp add: py_atan2_def)
qed

lemma radians_diff: "radians (x - y) = radians x - radians y"
  by (simp add: radians_def field_simps)

lemma haversine_term_is_arccos:
  "0 \<le> haversine_term p q" "haversine_term p q \<le> 1"
  "6371 * arccos (1 - 2 * haversine_term p q) = great_circle_km p q"
proof -
  let ?p1 = "radians (c_lat p)" and ?p2 = "radians (c_lat q)"
    and ?dl = "radians (c_lon q - c_lon p)"
  let ?c = "sin ?p1 * sin ?p2 + cos ?p1 * cos ?p2 * cos ?dl"
  let ?a = "(sin (radians (c_lat q - c_lat p) / 2))\<^sup>2 + cos ?p1 * cos ?p2 * (sin (?dl / 2))\<^sup>2"
  have cd: "cos (radians (c_lat q - c_lat p)) = cos ?p2 * cos ?p1 + sin ?p2 * sin ?p1"
    by (simp add: radians_diff cos_diff)
  have a: "?a = (1 - ?c) / 2"
    by (simp add: sin_half_sq cd field_simps)
  have "\<bar>?c\<bar> \<le> 1"
    by (rule unit_dot_bound) (simp_all add: abs_cos_le_one)
  then have r: "0 \<le> ?a" "?a \<le> 1"
    unfolding a by (simp_all add: abs_le_iff)
  have c: "1 - 2 * ?a = ?c"
    unfolding a by (simp add: field_simps)
  show "0 \<le> haversine_term p q" "haversine_term p q \<le> 1"
    using r by (simp_all only: haversine_term_def)
  show "6371 * arccos (1 - 2 * haversine_term p q) = great_circle_km p q"
    unfolding haversine_term_def great_circle_km_def c ..
qed

lemma haversine_km_float_term:
  "haversine_km err (c_lat p) (c_lon p) (c_lat q) (c_lon q) =
     (if sqrt_defined err p q then Inr (6371 * arccos (1 - 2 * float_term err p q))
      else Inl MathDomainError)"
proof (cases "sqrt_defined err p q")
  case True
  then have r: "0 \<le> float_term err p q" "float_term err p q \<le> 1"
    by (simp_all add: sqrt_defined_def)
  have "2 * py_atan2 (sqrt (float_term err p q)) (sqrt (1 - float_term err p q))
      = arccos (1 - 2 * float_term err p q)"
    using r by (rule two_atan2_arccos)
  then have "2 * 6371 * py_atan2 (sqrt (float_term err p q)) (sqrt (1 - float_term err p q))
      = 6371 * arccos (1 - 2 * float_term err p q)"
    by simp
  moreover have "haversine_km err (c_lat p) (c_lon p) (c_lat q) (c_lon q)
      = Inr (2 * 6371 * py_atan2 (sqrt (float_term err p q)) (sqrt (1 - float_term err p q)))"
    using r unfolding haversine_km_def Let_def float_term_def haversine_term_def
    by (simp add: not_less)
  ultimately show ?thesis using True by simp
next
  case False
  then have "float_term err p q < 0 \<or> 1 - float_term err p q < 0"
    by (auto simp: sqrt_defined_def not_le)
  then have "haversine_km err (c_lat p) (c_lon p) (c_lat q) (c_lon q) = Inl MathDomainError"
    unfolding haversine_km_def Let_def float_term_def haversine_term_def
    by simp
  with False show ?thesis by simp
qed

lemma haversine_row_result:
  "haversine_row err orig ds =
     (if list_all (sqrt_defined err orig) ds
      then Inr (map (\<lambda>dest. 6371 * arccos (1 - 2 * float_term err orig dest)) ds)
      else Inl MathDomainError)"
  by (induction ds) (simp_all add: haversine_km_float_term)

lemma haversine_rows_result:
  "haversine_rows err os ds =
     (if list_all (\<lambda>orig. list_all (sqrt_defined err orig) ds) os
      then Inr (map (\<lambda>orig. map (\<lambda>dest. 6371 * arccos (1 - 2 * float_term err orig dest)) ds) os)
      else Inl MathDomainError)"
  by (induction os) (simp_all add: haversine_row_result)

lemma get_matrix_result:
  assumes "origins request = Some os" and "os \<noteq> []"
  shows "get_matrix err request =
     (if list_all (\<lambda>orig. list_all (sqrt_defined err orig) (destinations_or_origins request)) os
      then Inr \<lparr>distances =
                  map (\<lambda>orig. map (\<lambda>dest. 6371 * arccos (1 - 2 * float_term err orig dest))
                                (destinations_or_origins request)) os,
                durations = None\<rparr>
      else Inl MathDomainError)"
proof -
  have ds: "(case destinations request of None \<Rightarrow> os | Some xs \<Rightarrow> if xs = [] then os else xs)
      = destinations_or_origins request"
    using assms by (simp add: destinations_or_origins_def split: option.splits)
  show ?thesis
    using assms(2) by (simp add: get_matrix_def Let_def assms(1) ds haversine_rows_result)
qed

lemma get_matrix_origins:
  "get_matrix err request = Inr m \<Longrightarrow> \<exists>os. origins request = Some os \<and> os \<noteq> []"
  by (auto simp: get_matrix_def split: option.splits if_splits)

lemma exact_sqrt_defined: "sqrt_defined (\<lambda>lat1 lon1 lat2 lon2. 0) p q"
  by (simp add: sqrt_defined_def float_term_def haversine_term_is_arccos)

text \<open>
  C7 (as amended).  Whenever the adapter returns, the request has a non-empty origins list
  and the result is a matrix with null durations, one row per origin and one column per
  destination (the origins when no destinations are given); \<open>distances[i][j]\<close> is in
  kilometres and a real number, not integer meters: 6371 times the central angle
  \<open>arccos(1 - 2a)\<close> of the haversine term \<open>a\<close> as computed, which is the great-circle
  distance between \<open>origins[i]\<close> and \<open>destinations[j]\<close> on a sphere of radius 6371 when the
  floats leave no error in \<open>a\<close>.  The adapter returns for a non-empty origins list exactly
  when every computed term lies between 0 and 1, as it does in exact arithmetic; otherwise
  \<open>math.sqrt\<close> raises \<open>ValueError\<close>, as for antipodal points whose term the floats carry
  above 1.
\<close>

theorem haversine_matrix_in_km:
  "(get_matrix err request = Inr m \<longrightarrow>
      (\<exists>os. origins request = Some os \<and> os \<noteq> [] \<and> durations m = None
         \<and> length (distances m) = length os
         \<and> (\<forall>i < length os.
              length (distances m ! i) = length (destinations_or_origins request)
            \<and> (\<forall>j < length (destinations_or_origins request).
                  0 \<le> float_term err (os ! i) (destinations_or_origins request ! j)
                \<and> float_term err (os ! i) (destinations_or_origins request ! j) \<le> 1
                \<and> distances m ! i ! j
                    = 6371 * arccos (1 - 2 * float_term err (os ! i)
                                               (destinations_or_origins request ! j))
                \<and> (err (c_lat (os ! i)) (c_lon (os ! i))
                        (c_lat (destinations_or_origins request ! j))
                        (c_lon (destinations_or_origins request ! j)) = 0
                    \<longrightarrow> distances m ! i ! j
                          = great_circle_km (os ! i) (destinations_or_origins request ! j))))))
   \<and> (origins request = Some ps \<and> ps \<noteq> []
      \<longrightarrow> (\<exists>r. get_matrix (\<lambda>lat1 lon1 lat2 lon2. 0) request = Inr r)
        \<and> ((\<exists>r. get_matrix err request = Inr r)
             = (\<forall>p \<in> set ps. \<forall>q \<in> set (destinations_or_origins request).
                  0 \<le> float_term err p q \<and> float_term err p q \<le> 1))
        \<and> ((\<nexists>r. get_matrix err request = Inr r)
             \<longrightarrow> get_matrix err request = Inl MathDomainError))"
proof (intro conjI impI)
  assume r: "get_matrix err request = Inr m"
  let ?ds = "destinations_or_origins request"
  from get_matrix_origins [OF r] obtain os where os: "origins request = Some os" "os \<noteq> []"
    by blast
  let ?rows = "map (\<lambda>orig. map (\<lambda>dest. 6371 * arccos (1 - 2 * float_term err orig dest)) ?ds) os"
  from r get_matrix_result [OF os, of err]
  have ok: "list_all (\<lambda>orig. list_all (sqrt_defined err orig) ?ds) os"
    and m: "m = \<lparr>distances = ?rows, durations = None\<rparr>"
    by (auto split: if_splits)
  have dom: "sqrt_defined err (os ! i) (?ds ! j)" if "i < length os" "j < length ?ds" for i j
    using ok that by (simp add: list_all_length)
  have exact: "6371 * arccos (1 - 2 * float_term err (os ! i) (?ds ! j))
      = great_circle_km (os ! i) (?ds ! j)"
    if "err (c_lat (os ! i)) (c_lon (os ! i)) (c_lat (?ds ! j)) (c_lon (?ds ! j)) = 0" for i j
    using that haversine_term_is_arccos(3) [of "os ! i" "?ds ! j"]
    by (simp add: float_term_def)
  have "durations m = None \<and> length (distances m) = length os
         \<and> (\<forall>i < length os.
              length (distances m ! i) = length ?ds
            \<and> (\<forall>j < length ?ds.
                  0 \<le> float_term err (os ! i) (?ds ! j)
                \<and> float_term err (os ! i) (?ds ! j) \<le> 1
                \<and> distances m ! i ! j = 6371 * arccos (1 - 2 * float_term err (os ! i) (?ds ! j))
                \<and> (err (c_lat (os ! i)) (c_lon (os ! i)) (c_lat (?ds ! j)) (c_lon (?ds ! j)) = 0
                    \<longrightarrow> distances m ! i ! j = great_circle_km (os ! i) (?ds ! j))))"
    using dom exact unfolding m by (simp add: sqrt_defined_def)
  with os show "\<exists>os. origins request = Some os \<and> os \<noteq> [] \<and> durations m = None
         \<and> length (distances m) = length os
         \<and> (\<forall>i < length os.
              length (distances m ! i) = length ?ds
            \<and> (\<forall>j < length ?ds.
                  0 \<le> float_term err (os ! i) (?ds ! j)
                \<and> float_term err (os ! i) (?ds ! j) \<le> 1
                \<and> distances m ! i ! j = 6371 * arccos (1 - 2 * float_term err (os ! i) (?ds ! j))
                \<and> (err (c_lat (os ! i)) (c_lon (os ! i)) (c_lat (?ds ! j)) (c_lon (?ds ! j)) = 0
                    \<longrightarrow> distances m ! i ! j = great_circle_km (os ! i) (?ds ! j))))"
    by blast
next
  assume a: "origins request = Some ps \<and> ps \<noteq> []"
  then have ps: "origins request = Some ps" "ps \<noteq> []" by simp_all
  show "\<exists>r. get_matrix (\<lambda>lat1 lon1 lat2 lon2. 0) request = Inr r"
    unfolding get_matrix_result [OF ps] by (simp add: exact_sqrt_defined list_all_iff)
next
  assume a: "origins request = Some ps \<and> ps \<noteq> []"
  then have ps: "origins request = Some ps" "ps \<noteq> []" by simp_all
  show "(\<exists>r. get_matrix err request = Inr r)
      = (\<forall>p \<in> set ps. \<forall>q \<in> set (destinations_or_origins request).
           0 \<le> float_term err p q \<and> float_term err p q \<le> 1)"
    unfolding get_matrix_result [OF ps] by (simp add: list_all_iff sqrt_defined_def)
next
  assume a: "origins request = Some ps \<and> ps \<noteq> []"
    and n: "\<nexists>r. get_matrix err request = Inr r"
  from a have ps: "origins request = Some ps" "ps \<noteq> []" by simp_all
  from n show "get_matrix err request = Inl MathDomainError"
    unfolding get_matrix_result [OF ps] by (simp split: if_splits)
qed

lemma antipodal_term:
  "haversine_term \<lparr>c_lat = 2 / 25, c_lon = 0\<rparr> \<lparr>c_lat = - (2 / 25), c_lon = 180\<rparr> = 1"
proof -
  have "radians (- (2 / 25) - 2 / 25) / 2 = - radians (2 / 25)"
    by (simp add: radians_def)
  moreover have "radians (180 - 0) / 2 = pi / 2" by (simp add: radians_def)
  moreover have "radians (- (2 / 25)) = - radians (2 / 25)" by (simp add: radians_def)
  ultimately have "haversine_term \<lparr>c_lat = 2 / 25, c_lon = 0\<rparr> \<lparr>c_lat = - (2 / 25), c_lon = 180\<rparr>
      = (sin (radians (2 / 25)))\<^sup>2 + (cos (radians (2 / 25)))\<^sup>2"
    by (simp add: haversine_term_def power2_eq_square)
  then show ?thesis by simp
qed

theorem haversine_matrix_in_km_witness:
  "(\<exists>m. get_matrix (\<lambda>lat1 lon1 lat2 lon2. 0)
           \<lparr>origins = Some [\<lparr>c_lat = 0, c_lon = 0\<rparr>],
            destinations = Some [\<lparr>c_lat = 0, c_lon = 180\<rparr>]\<rparr> = Inr m
      \<and> durations m = None
      \<and> distances m ! 0 ! 0 = great_circle_km \<lparr>c_lat = 0, c_lon = 0\<rparr> \<lparr>c_lat = 0, c_lon = 180\<rparr>)
   \<and> get_matrix (\<lambda>lat1 lon1 lat2 lon2. 1 / 2 ^ 52)
       \<lparr>origins = Some [\<lparr>c_lat = 2 / 25, c_lon = 0\<rparr>],
        destinations = Some [\<lparr>c_lat = - (2 / 25), c_lon = 180\<rparr>]\<rparr> = Inl MathDomainError"
proof -
  let ?zero = "\<lambda>lat1 lon1 lat2 lon2. 0 :: real"
  let ?ulp = "\<lambda>lat1 lon1 lat2 lon2. 1 / 2 ^ 52 :: real"
  let ?req = "\<lparr>origins = Some [\<lparr>c_lat = 0, c_lon = 0\<rparr>],
               destinations = Some [\<lparr>c_lat = 0, c_lon = 180\<rparr>]\<rparr>"
  let ?anti = "\<lparr>origins = Some [\<lparr>c_lat = 2 / 25, c_lon = 0\<rparr>],
                destinations = Some [\<lparr>c_lat = - (2 / 25), c_lon = 180\<rparr>]\<rparr>"
  have h: "origins ?req = Some [\<lparr>c_lat = 0, c_lon = 0\<rparr>] \<and> [\<lparr>c_lat = 0, c_lon = 0\<rparr>] \<noteq> []"
    by simp
  from haversine_matrix_in_km [where request = ?req and ps = "[\<lparr>c_lat = 0, c_lon = 0\<rparr>]",
      THEN conjunct2] h
  obtain m where m: "get_matrix ?zero ?req = Inr m" by blast
  from haversine_matrix_in_km [where request = ?req and err = ?zero and m = m, THEN conjunct1] m
  have one: "durations m = None
      \<and> distances m ! 0 ! 0 = great_circle_km \<lparr>c_lat = 0, c_lon = 0\<rparr> \<lparr>c_lat = 0, c_lon = 180\<rparr>"
    by (auto simp: destinations_or_origins_def)
  have ha: "origins ?anti = Some [\<lparr>c_lat = 2 / 25, c_lon = 0\<rparr>]
      \<and> [\<lparr>c_lat = 2 / 25, c_lon = 0\<rparr>] \<noteq> []"
    by simp
  have "\<not> (\<forall>p \<in> set [\<lparr>c_lat = 2 / 25, c_lon = 0\<rparr>]. \<forall>q \<in> set (destinations_or_origins ?anti).
            0 \<le> float_term ?ulp p q \<and> float_term ?ulp p q \<le> 1)"
    by (simp add: destinations_or_origins_def float_term_def antipodal_term)
  with haversine_matrix_in_km [where request = ?anti and err = ?ulp
      and ps = "[\<lparr>c_lat = 2 / 25, c_lon = 0\<rparr>]", THEN conjunct2] ha
  have two: "get_matrix ?ulp ?anti = Inl MathDomainError"
    by blast
  from m one two show ?thesis by blast
qed

text \<open>
  The claim as written has the entries in integer meters.  From the equator at longitude
  0 to the equator at longitude 180 is half a great circle, \<open>6371 * pi\<close> kilometres, at
  least 12742000 meters; the adapter, whose floats leave no error in the term there,
  returns \<open>6371 * pi\<close> itself, which is less than 25484.
\<close>

theorem haversine_meters_counterexample:
  "get_matrix (\<lambda>lat1 lon1 lat2 lon2. 0)
     \<lparr>origins = Some [\<lparr>c_lat = 0, c_lon = 0\<rparr>],
      destinations = Some [\<lparr>c_lat = 0, c_lon = 180\<rparr>]\<rparr>
     = Inr \<lparr>distances = [[6371 * pi]], durations = None\<rparr>
   \<and> 6371 * pi < 25484 \<and> 12742000 \<le> 1000 * (6371 * pi)"
proof -
  have "haversine_km (\<lambda>lat1 lon1 lat2 lon2. 0) 0 0 0 180 = Inr (6371 * pi)"
    by (simp add: haversine_km_def radians_def py_atan2_def)
  moreover have "6371 * pi < 25484" "12742000 \<le> 1000 * (6371 * pi)"
    using pi_ge_two pi_less_4 by simp_all
  ultimately show ?thesis
    by (simp add: get_matrix_def)
qed

end
